theory Spec2Isabelle
  imports Main "HOL-Library.Multiset"
begin

section \<open>The bookmark sync server: data model\<close>

text \<open>
  The server keeps four SQL tables (users, bookmarks, sync_events, sync_versions) in one
  sql.js database. A table is modelled as the list of its rows in insertion order, a row
  as a record with the columns of the CREATE TABLE statement. The foreign keys of the
  schema are not enforced (sql.js leaves \<^verbatim>\<open>PRAGMA foreign_keys\<close> off and the code
  never turns it on); the primary keys and the UNIQUE email are.

  Identifiers are the strings of \<^verbatim>\<open>crypto.randomUUID()\<close> in the source. The model
  keeps their only relevant property, equality, and draws them from a counter that is
  part of the state, so that a generated identifier never repeats.
  JavaScript numbers are modelled as integers and \<^verbatim>\<open>Date.now()\<close> is an input of
  every operation (all reads of the clock during one call return the same value).

  sql.js runs every statement synchronously and no function of the database layer
  awaits anything, so a call runs to its end before the next request is handled: a call
  is a function from the database to a result and the database after it. A call that
  throws returns the error and the database as the statements before the throw left it
  (there is no transaction and no rollback in the source).
\<close>

type_synonym uuid = nat

record DbUser =
  u_id :: uuid
  email :: string
  password_hash :: string
  created_at :: int
  updated_at :: int

record DbBookmark =
  db_id :: uuid
  user_id :: uuid
  parent_id :: "uuid option"
  db_title :: string
  db_url :: "string option"
  db_favicon :: "string option"
  date_added :: int
  date_modified :: int
  is_folder :: int
  sort_order :: int
  sync_version :: int
  is_deleted :: int
  deleted_at :: "int option"

text \<open>The \<^verbatim>\<open>Bookmark\<close> interface of the shared package, the shape sent to clients.\<close>

record Bookmark =
  bm_id :: uuid
  userId :: uuid
  parentId :: "uuid option"
  title :: string
  url :: "string option"
  favicon :: "string option"
  dateAdded :: int
  dateModified :: int
  isFolder :: bool
  sortOrder :: int
  syncVersion :: int
  isDeleted :: bool
  deletedAt :: "int option"

record BookmarkCreateData =
  c_parentId :: "uuid option"
  c_title :: string
  c_url :: "string option"
  c_isFolder :: bool
  c_sortOrder :: int
  c_favicon :: "string option"

text \<open>
  The \<^verbatim>\<open>Partial<Bookmark>\<close> an update carries: the four fields
  \<^verbatim>\<open>updateBookmark\<close> reads, each absent (\<^verbatim>\<open>undefined\<close>) or present, and the
  \<^verbatim>\<open>expectedVersion\<close> a REST body may hold beside them. For the nullable fields
  \<open>Some None\<close> is an explicit \<^verbatim>\<open>null\<close>.
\<close>

record patch =
  p_title :: "string option"
  p_url :: "string option option"
  p_favicon :: "string option option"
  p_sortOrder :: "int option"
  p_expectedVersion :: "int option"

datatype event_type = Create | Update | Delete | Move

text \<open>
  The \<^verbatim>\<open>data\<close> column of a sync event is the JSON text of what the operation was
  given: the create data with the new id, the update's patch, the empty object for a
  delete, the new parent and position for a move. A broadcast create event carries the
  stored bookmark instead.
\<close>

datatype event_data =
    CreatePayload BookmarkCreateData uuid
  | UpdatePayload patch
  | EmptyPayload
  | MovePayload "uuid option" int
  | BookmarkPayload Bookmark

record DbSyncEvent =
  ev_id :: uuid
  ev_user_id :: uuid
  ev_type :: event_type
  ev_bookmark_id :: uuid
  ev_data :: event_data
  ev_timestamp :: int
  ev_client_id :: string
  ev_sync_version :: int

record SyncEvent =
  se_id :: uuid
  se_type :: event_type
  se_bookmarkId :: uuid
  se_data :: event_data
  se_timestamp :: int
  se_clientId :: string
  se_syncVersion :: int

record DbSyncVersion =
  sv_user_id :: uuid
  current_version :: int

record database =
  users :: "DbUser list"
  bookmarks :: "DbBookmark list"
  sync_events :: "DbSyncEvent list"
  sync_versions :: "DbSyncVersion list"
  uuid_seed :: nat

text \<open>What a call can throw: the engine's own error, a failed INSERT, a read of a
  property of \<^verbatim>\<open>undefined\<close>.\<close>

datatype error = BookmarkNotFound | SqlConstraint | TypeError

definition error_message :: "error \<Rightarrow> string" where
  "error_message e =
     (case e of
        BookmarkNotFound \<Rightarrow> ''Bookmark not found''
      | SqlConstraint \<Rightarrow> ''UNIQUE constraint failed''
      | TypeError \<Rightarrow> ''Cannot read properties of undefined'')"

definition initDatabase :: database where
  "initDatabase =
     \<lparr>users = [], bookmarks = [], sync_events = [], sync_versions = [], uuid_seed = 0\<rparr>"

definition randomUUID :: "database \<Rightarrow> uuid \<times> database" where
  "randomUUID s = (uuid_seed s, s\<lparr>uuid_seed := Suc (uuid_seed s)\<rparr>)"

section \<open>db/users.ts\<close>

definition createUser :: "string \<Rightarrow> string \<Rightarrow> int \<Rightarrow> database \<Rightarrow> (error + DbUser) \<times> database" where
  "createUser mail passwordHash now s =
     (let (new_id, s1) = randomUUID s;
          row = \<lparr>u_id = new_id, email = mail, password_hash = passwordHash,
                 created_at = now, updated_at = now\<rparr>
      in if new_id \<in> set (map u_id (users s1)) \<or> mail \<in> set (map email (users s1))
         then (Inl SqlConstraint, s1)
         else
           (let s2 = s1\<lparr>users := users s1 @ [row]\<rparr>
            in if new_id \<in> set (map sv_user_id (sync_versions s2))
               then (Inl SqlConstraint, s2)
               else (Inr row,
                     s2\<lparr>sync_versions := sync_versions s2 @
                          [\<lparr>sv_user_id = new_id, current_version = 0\<rparr>]\<rparr>)))"

definition getSyncVersion :: "database \<Rightarrow> uuid \<Rightarrow> int" where
  "getSyncVersion s u =
     (case find (\<lambda>r. sv_user_id r = u) (sync_versions s) of
        Some r \<Rightarrow> current_version r
      | None \<Rightarrow> 0)"

definition incrementSyncVersion :: "uuid \<Rightarrow> database \<Rightarrow> int \<times> database" where
  "incrementSyncVersion u s =
     (let current = getSyncVersion s u;
          newVersion = current + 1
      in (newVersion,
          s\<lparr>sync_versions :=
               map (\<lambda>r. if sv_user_id r = u then r\<lparr>current_version := newVersion\<rparr> else r)
                   (sync_versions s)\<rparr>))"

section \<open>db/bookmarks.ts\<close>

definition toBookmark :: "DbBookmark \<Rightarrow> Bookmark" where
  "toBookmark row =
     \<lparr>bm_id = db_id row, userId = user_id row, parentId = parent_id row,
      title = db_title row, url = db_url row, favicon = db_favicon row,
      dateAdded = date_added row, dateModified = date_modified row,
      isFolder = (is_folder row = 1), sortOrder = sort_order row,
      syncVersion = sync_version row, isDeleted = (is_deleted row = 1),
      deletedAt = deleted_at row\<rparr>"

definition clearAllBookmarks :: "uuid \<Rightarrow> database \<Rightarrow> database" where
  "clearAllBookmarks u s =
     s\<lparr>bookmarks := filter (\<lambda>r. user_id r \<noteq> u) (bookmarks s),
       sync_events := filter (\<lambda>e. ev_user_id e \<noteq> u) (sync_events s),
       sync_versions :=
         map (\<lambda>r. if sv_user_id r = u then r\<lparr>current_version := 0\<rparr> else r)
             (sync_versions s)\<rparr>"

text \<open>\<^verbatim>\<open>ORDER BY\<close> is modelled as a stable sort on the key; SQL leaves the order of
  rows with equal keys open, and no theorem below depends on it.\<close>

definition getAllBookmarks :: "database \<Rightarrow> uuid \<Rightarrow> Bookmark list" where
  "getAllBookmarks s u =
     map toBookmark
       (sort_key sort_order (filter (\<lambda>r. user_id r = u \<and> is_deleted r = 0) (bookmarks s)))"

definition getBookmarkById :: "database \<Rightarrow> uuid \<Rightarrow> uuid \<Rightarrow> Bookmark option" where
  "getBookmarkById s i u =
     map_option toBookmark (find (\<lambda>r. db_id r = i \<and> user_id r = u) (bookmarks s))"

definition recordSyncEvent ::
  "uuid \<Rightarrow> event_type \<Rightarrow> uuid \<Rightarrow> event_data \<Rightarrow> string \<Rightarrow> int \<Rightarrow> int \<Rightarrow> database
     \<Rightarrow> (error + unit) \<times> database" where
  "recordSyncEvent u ty bookmarkId payload clientId version now s =
     (let (new_id, s1) = randomUUID s
      in if new_id \<in> set (map ev_id (sync_events s1))
         then (Inl SqlConstraint, s1)
         else (Inr (),
               s1\<lparr>sync_events := sync_events s1 @
                    [\<lparr>ev_id = new_id, ev_user_id = u, ev_type = ty,
                      ev_bookmark_id = bookmarkId, ev_data = payload, ev_timestamp = now,
                      ev_client_id = clientId, ev_sync_version = version\<rparr>]\<rparr>))"

definition createBookmark ::
  "uuid \<Rightarrow> BookmarkCreateData \<Rightarrow> string \<Rightarrow> int \<Rightarrow> database
     \<Rightarrow> (error + Bookmark option \<times> int) \<times> database" where
  "createBookmark u d clientId now s =
     (let (new_id, s1) = randomUUID s
      in if new_id \<in> set (map db_id (bookmarks s1))
         then (Inl SqlConstraint, s1)
         else
           (let s2 = s1\<lparr>bookmarks := bookmarks s1 @
                       [\<lparr>db_id = new_id, user_id = u, parent_id = c_parentId d,
                         db_title = c_title d, db_url = c_url d, db_favicon = c_favicon d,
                         date_added = now, date_modified = now,
                         is_folder = (if c_isFolder d then 1 else 0),
                         sort_order = c_sortOrder d, sync_version = 1,
                         is_deleted = 0, deleted_at = None\<rparr>]\<rparr>;
                (version, s3) = incrementSyncVersion u s2
            in case recordSyncEvent u Create new_id (CreatePayload d new_id) clientId version now s3 of
                 (Inl e, s4) \<Rightarrow> (Inl e, s4)
               | (Inr _, s4) \<Rightarrow> (Inr (getBookmarkById s4 new_id u, version), s4)))"

text \<open>
  The result of update and move is \<^verbatim>\<open>{bookmark, syncVersion}\<close> or
  \<^verbatim>\<open>{conflict: true, serverVersion}\<close>; the bookmark is read back with a non-null
  assertion, which is \<^verbatim>\<open>undefined\<close> at run time when the row is not found.
\<close>

datatype mutation_result = Applied "Bookmark option" int | Conflict Bookmark

datatype delete_result = Deleted int | DeleteConflict Bookmark

definition apply_patch :: "patch \<Rightarrow> int \<Rightarrow> DbBookmark \<Rightarrow> DbBookmark" where
  "apply_patch d now r =
     (let r1 = (case p_title d of None \<Rightarrow> r | Some t \<Rightarrow> r\<lparr>db_title := t\<rparr>);
          r2 = (case p_url d of None \<Rightarrow> r1 | Some x \<Rightarrow> r1\<lparr>db_url := x\<rparr>);
          r3 = (case p_favicon d of None \<Rightarrow> r2 | Some f \<Rightarrow> r2\<lparr>db_favicon := f\<rparr>);
          r4 = (case p_sortOrder d of None \<Rightarrow> r3 | Some k \<Rightarrow> r3\<lparr>sort_order := k\<rparr>)
      in r4\<lparr>date_modified := now, sync_version := sync_version r4 + 1\<rparr>)"

text \<open>\<^verbatim>\<open>UPDATE bookmarks SET ... WHERE id = ? AND user_id = ?\<close>\<close>

definition update_where :: "uuid \<Rightarrow> uuid \<Rightarrow> (DbBookmark \<Rightarrow> DbBookmark) \<Rightarrow> database \<Rightarrow> database" where
  "update_where i u f s =
     s\<lparr>bookmarks := map (\<lambda>r. if db_id r = i \<and> user_id r = u then f r else r) (bookmarks s)\<rparr>"

definition updateBookmark ::
  "uuid \<Rightarrow> uuid \<Rightarrow> patch \<Rightarrow> int \<Rightarrow> string \<Rightarrow> int \<Rightarrow> database
     \<Rightarrow> (error + mutation_result) \<times> database" where
  "updateBookmark i u d expectedVersion clientId now s =
     (case getBookmarkById s i u of
        None \<Rightarrow> (Inl BookmarkNotFound, s)
      | Some existing \<Rightarrow>
          if syncVersion existing \<noteq> expectedVersion then (Inr (Conflict existing), s)
          else
            (let s1 = update_where i u (apply_patch d now) s;
                 (version, s2) = incrementSyncVersion u s1
             in case recordSyncEvent u Update i (UpdatePayload d) clientId version now s2 of
                  (Inl e, s3) \<Rightarrow> (Inl e, s3)
                | (Inr _, s3) \<Rightarrow> (Inr (Applied (getBookmarkById s3 i u) version), s3)))"

definition deleteBookmark ::
  "uuid \<Rightarrow> uuid \<Rightarrow> int \<Rightarrow> string \<Rightarrow> int \<Rightarrow> database
     \<Rightarrow> (error + delete_result) \<times> database" where
  "deleteBookmark i u expectedVersion clientId now s =
     (case getBookmarkById s i u of
        None \<Rightarrow> (Inl BookmarkNotFound, s)
      | Some existing \<Rightarrow>
          if syncVersion existing \<noteq> expectedVersion then (Inr (DeleteConflict existing), s)
          else
            (let s1 = update_where i u
                        (\<lambda>r. r\<lparr>is_deleted := 1, deleted_at := Some now, date_modified := now\<rparr>) s;
                 (version, s2) = incrementSyncVersion u s1
             in case recordSyncEvent u Delete i EmptyPayload clientId version now s2 of
                  (Inl e, s3) \<Rightarrow> (Inl e, s3)
                | (Inr _, s3) \<Rightarrow> (Inr (Deleted version), s3)))"

definition moveBookmark ::
  "uuid \<Rightarrow> uuid \<Rightarrow> uuid option \<Rightarrow> int \<Rightarrow> int \<Rightarrow> string \<Rightarrow> int \<Rightarrow> database
     \<Rightarrow> (error + mutation_result) \<times> database" where
  "moveBookmark i u newParentId newIndex expectedVersion clientId now s =
     (case getBookmarkById s i u of
        None \<Rightarrow> (Inl BookmarkNotFound, s)
      | Some existing \<Rightarrow>
          if syncVersion existing \<noteq> expectedVersion then (Inr (Conflict existing), s)
          else
            (let s1 = update_where i u
                        (\<lambda>r. r\<lparr>parent_id := newParentId, sort_order := newIndex,
                               date_modified := now, sync_version := sync_version r + 1\<rparr>) s;
                 (version, s2) = incrementSyncVersion u s1
             in case recordSyncEvent u Move i (MovePayload newParentId newIndex) clientId version now s2 of
                  (Inl e, s3) \<Rightarrow> (Inl e, s3)
                | (Inr _, s3) \<Rightarrow> (Inr (Applied (getBookmarkById s3 i u) version), s3)))"

definition toSyncEvent :: "DbSyncEvent \<Rightarrow> SyncEvent" where
  "toSyncEvent row =
     \<lparr>se_id = ev_id row, se_type = ev_type row, se_bookmarkId = ev_bookmark_id row,
      se_data = ev_data row, se_timestamp = ev_timestamp row,
      se_clientId = ev_client_id row, se_syncVersion = ev_sync_version row\<rparr>"

definition getSyncEventsSince :: "database \<Rightarrow> uuid \<Rightarrow> int \<Rightarrow> SyncEvent list" where
  "getSyncEventsSince s u sinceVersion =
     map toSyncEvent
       (take 1000
          (sort_key ev_sync_version
             (filter (\<lambda>e. ev_user_id e = u \<and> ev_sync_version e > sinceVersion) (sync_events s))))"

section \<open>routes/bookmarks.ts: the REST handlers\<close>

text \<open>
  Every route runs behind \<^verbatim>\<open>authMiddleware\<close>, which sets \<^verbatim>\<open>req.userId\<close> from the
  bearer token; the handlers below take that user id. A request body is given as parsed
  by the route's zod schema, \<open>None\<close> when the schema rejects it.
\<close>

datatype response_body =
    SuccessTrue
  | MutationJson "Bookmark option" int
  | DeleteJson int
  | BookmarkJson Bookmark
  | BookmarksJson "Bookmark list" int
  | ErrorJson string

datatype http_response = Response nat response_body

definition router_get_root :: "uuid \<Rightarrow> database \<Rightarrow> http_response" where
  "router_get_root u s = Response 200 (BookmarksJson (getAllBookmarks s u) (getSyncVersion s u))"

definition router_post_clear :: "uuid \<Rightarrow> database \<Rightarrow> http_response \<times> database" where
  "router_post_clear u s = (Response 200 SuccessTrue, clearAllBookmarks u s)"

definition router_get_id :: "uuid \<Rightarrow> uuid \<Rightarrow> database \<Rightarrow> http_response" where
  "router_get_id i u s =
     (case getBookmarkById s i u of
        None \<Rightarrow> Response 404 (ErrorJson ''Bookmark not found'')
      | Some bookmark \<Rightarrow> Response 200 (BookmarkJson bookmark))"

definition router_put_id ::
  "uuid \<Rightarrow> uuid \<Rightarrow> patch option \<Rightarrow> int \<Rightarrow> database \<Rightarrow> http_response \<times> database" where
  "router_put_id i u body now s =
     (case body of
        None \<Rightarrow> (Response 400 (ErrorJson ''Invalid input''), s)
      | Some d \<Rightarrow>
          (let expectedVersion = (case p_expectedVersion d of None \<Rightarrow> 0 | Some v \<Rightarrow> v)
           in case updateBookmark i u d expectedVersion ''api'' now s of
                (Inr (Conflict _), s') \<Rightarrow> (Response 200 SuccessTrue, s')
              | (Inr (Applied b v), s') \<Rightarrow> (Response 200 (MutationJson b v), s')
              | (Inl e, s') \<Rightarrow>
                  if e = BookmarkNotFound
                  then (Response 404 (ErrorJson ''Bookmark not found''), s')
                  else (Response 500 (ErrorJson ''Failed to update bookmark''), s')))"

definition router_patch_id ::
  "uuid \<Rightarrow> uuid \<Rightarrow> patch option \<Rightarrow> int \<Rightarrow> database \<Rightarrow> http_response \<times> database" where
  "router_patch_id i u body now s =
     (case body of
        None \<Rightarrow> (Response 400 (ErrorJson ''Invalid input''), s)
      | Some d \<Rightarrow>
          (let expectedVersion = (case p_expectedVersion d of None \<Rightarrow> 0 | Some v \<Rightarrow> v)
           in case updateBookmark i u d expectedVersion ''api'' now s of
                (Inr (Conflict _), s') \<Rightarrow> (Response 200 SuccessTrue, s')
              | (Inr (Applied b v), s') \<Rightarrow> (Response 200 (MutationJson b v), s')
              | (Inl e, s') \<Rightarrow>
                  if e = BookmarkNotFound
                  then (Response 404 (ErrorJson ''Bookmark not found''), s')
                  else (Response 500 (ErrorJson ''Failed to update bookmark''), s')))"

text \<open>The move route reads \<^verbatim>\<open>parentId\<close> and \<^verbatim>\<open>sortOrder\<close> from the body without a
  schema and passes the literal 0 as the expected version.\<close>

definition router_put_id_move ::
  "uuid \<Rightarrow> uuid \<Rightarrow> uuid option \<Rightarrow> int option \<Rightarrow> int \<Rightarrow> database \<Rightarrow> http_response \<times> database" where
  "router_put_id_move i u parent sortOrd now s =
     (case moveBookmark i u parent (case sortOrd of None \<Rightarrow> 0 | Some k \<Rightarrow> k) 0 ''api'' now s of
        (Inr (Conflict _), s') \<Rightarrow> (Response 200 SuccessTrue, s')
      | (Inr (Applied b v), s') \<Rightarrow> (Response 200 (MutationJson b v), s')
      | (Inl e, s') \<Rightarrow>
          if e = BookmarkNotFound
          then (Response 404 (ErrorJson ''Bookmark not found''), s')
          else (Response 500 (ErrorJson ''Failed to move bookmark''), s'))"

text \<open>The query parameter of the delete route goes through
  \<^verbatim>\<open>parseInt(...) || 0\<close>: \<open>None\<close> stands for a missing or non-numeric value.\<close>

definition router_delete_id ::
  "uuid \<Rightarrow> uuid \<Rightarrow> int option \<Rightarrow> int \<Rightarrow> database \<Rightarrow> http_response \<times> database" where
  "router_delete_id i u query now s =
     (let expectedVersion = (case query of None \<Rightarrow> 0 | Some v \<Rightarrow> v)
      in case deleteBookmark i u expectedVersion ''api'' now s of
           (Inr (DeleteConflict _), s') \<Rightarrow> (Response 200 SuccessTrue, s')
         | (Inr (Deleted v), s') \<Rightarrow> (Response 200 (DeleteJson v), s')
         | (Inl e, s') \<Rightarrow>
             if e = BookmarkNotFound
             then (Response 200 SuccessTrue, s')
             else (Response 500 (ErrorJson ''Failed to delete bookmark''), s'))"

section \<open>websocket/index.ts: the message handlers\<close>

datatype ErrorCode =
  AUTH_REQUIRED | AUTH_FAILED | NOT_FOUND | CONFLICT | INVALID_REQUEST | RATE_LIMITED | SERVER_ERROR

datatype ClientMessage =
    SyncRequest int
  | SyncClear
  | BookmarkCreateMsg string BookmarkCreateData
  | BookmarkUpdateMsg string uuid patch int
  | BookmarkDeleteMsg string uuid int
  | BookmarkMoveMsg string uuid "uuid option" int int
  | Ping int

datatype ServerMessage =
    SyncFull "Bookmark list" int
  | SyncIncremental "SyncEvent list" int
  | BookmarkAck string uuid int
  | ConflictMsg string uuid Bookmark event_data
  | Pong int
  | ErrorMsg "string option" ErrorCode string

text \<open>
  What a handler does to the outside: \<^verbatim>\<open>sendMessage(ws, m)\<close> to the socket the
  message came from, and \<^verbatim>\<open>broadcastToUser(userId, m, excludeClientId)\<close> to the other
  sockets of the user.
\<close>

datatype outgoing = Send ServerMessage | Broadcast uuid ServerMessage string

definition handleSyncRequest :: "uuid \<Rightarrow> int \<Rightarrow> database \<Rightarrow> outgoing list" where
  "handleSyncRequest u lastSyncVersion s =
     (let currentVersion = getSyncVersion s u
      in if lastSyncVersion = 0 \<or> lastSyncVersion \<ge> currentVersion
         then [Send (SyncFull (getAllBookmarks s u) currentVersion)]
         else [Send (SyncIncremental (getSyncEventsSince s u lastSyncVersion) currentVersion)])"

definition broadcast_event ::
  "uuid \<Rightarrow> string \<Rightarrow> event_type \<Rightarrow> uuid \<Rightarrow> event_data \<Rightarrow> int \<Rightarrow> int \<Rightarrow> database
     \<Rightarrow> outgoing \<times> database" where
  "broadcast_event u clientId ty bookmarkId payload version now s =
     (let (new_id, s1) = randomUUID s
      in (Broadcast u
            (SyncIncremental
               [\<lparr>se_id = new_id, se_type = ty, se_bookmarkId = bookmarkId, se_data = payload,
                 se_timestamp = now, se_clientId = clientId, se_syncVersion = version\<rparr>]
               version)
            clientId, s1))"

definition server_error :: "string \<Rightarrow> error \<Rightarrow> outgoing" where
  "server_error requestId e = Send (ErrorMsg (Some requestId) SERVER_ERROR (error_message e))"

definition handleBookmarkCreate ::
  "uuid \<Rightarrow> string \<Rightarrow> string \<Rightarrow> BookmarkCreateData \<Rightarrow> int \<Rightarrow> database
     \<Rightarrow> outgoing list \<times> database" where
  "handleBookmarkCreate u clientId requestId d now s =
     (case createBookmark u d clientId now s of
        (Inl e, s') \<Rightarrow> ([server_error requestId e], s')
      | (Inr (None, version), s') \<Rightarrow> ([server_error requestId TypeError], s')
      | (Inr (Some b, version), s') \<Rightarrow>
          (let (bc, s'') = broadcast_event u clientId Create (bm_id b) (BookmarkPayload b) version now s'
           in ([Send (BookmarkAck requestId (bm_id b) version), bc], s'')))"

definition handleBookmarkUpdate ::
  "uuid \<Rightarrow> string \<Rightarrow> string \<Rightarrow> uuid \<Rightarrow> patch \<Rightarrow> int \<Rightarrow> int \<Rightarrow> database
     \<Rightarrow> outgoing list \<times> database" where
  "handleBookmarkUpdate u clientId requestId i d expectedVersion now s =
     (case updateBookmark i u d expectedVersion clientId now s of
        (Inl e, s') \<Rightarrow> ([server_error requestId e], s')
      | (Inr (Conflict server), s') \<Rightarrow> ([Send (ConflictMsg requestId i server (UpdatePayload d))], s')
      | (Inr (Applied None version), s') \<Rightarrow> ([server_error requestId TypeError], s')
      | (Inr (Applied (Some b) version), s') \<Rightarrow>
          (let (bc, s'') = broadcast_event u clientId Update (bm_id b) (UpdatePayload d) version now s'
           in ([Send (BookmarkAck requestId (bm_id b) version), bc], s'')))"

definition handleBookmarkDelete ::
  "uuid \<Rightarrow> string \<Rightarrow> string \<Rightarrow> uuid \<Rightarrow> int \<Rightarrow> int \<Rightarrow> database
     \<Rightarrow> outgoing list \<times> database" where
  "handleBookmarkDelete u clientId requestId i expectedVersion now s =
     (case deleteBookmark i u expectedVersion clientId now s of
        (Inl e, s') \<Rightarrow> ([server_error requestId e], s')
      | (Inr (DeleteConflict server), s') \<Rightarrow> ([Send (ConflictMsg requestId i server EmptyPayload)], s')
      | (Inr (Deleted version), s') \<Rightarrow>
          (let (bc, s'') = broadcast_event u clientId Delete i EmptyPayload version now s'
           in ([Send (BookmarkAck requestId i version), bc], s'')))"

definition handleBookmarkMove ::
  "uuid \<Rightarrow> string \<Rightarrow> string \<Rightarrow> uuid \<Rightarrow> uuid option \<Rightarrow> int \<Rightarrow> int \<Rightarrow> int \<Rightarrow> database
     \<Rightarrow> outgoing list \<times> database" where
  "handleBookmarkMove u clientId requestId i newParentId newIndex expectedVersion now s =
     (case moveBookmark i u newParentId newIndex expectedVersion clientId now s of
        (Inl e, s') \<Rightarrow> ([server_error requestId e], s')
      | (Inr (Conflict server), s') \<Rightarrow>
          ([Send (ConflictMsg requestId i server (MovePayload newParentId newIndex))], s')
      | (Inr (Applied None version), s') \<Rightarrow> ([server_error requestId TypeError], s')
      | (Inr (Applied (Some b) version), s') \<Rightarrow>
          (let (bc, s'') = broadcast_event u clientId Move (bm_id b)
                             (MovePayload newParentId newIndex) version now s'
           in ([Send (BookmarkAck requestId (bm_id b) version), bc], s'')))"

text \<open>
  The message router. The socket is the pair \<^verbatim>\<open>(ws.userId, ws.clientId)\<close> that
  \<^verbatim>\<open>handleAuth\<close> stored after it verified the token, or \<open>None\<close> before that. The
  \<^verbatim>\<open>auth\<close> message itself (token verification) is outside the model.
\<close>

definition auth_required :: outgoing where
  "auth_required = Send (ErrorMsg None AUTH_REQUIRED ''Not authenticated'')"

definition handleMessage ::
  "(uuid \<times> string) option \<Rightarrow> ClientMessage \<Rightarrow> int \<Rightarrow> database \<Rightarrow> outgoing list \<times> database" where
  "handleMessage ws message now s =
     (case message of
        Ping t \<Rightarrow> ([Send (Pong now)], s)
      | SyncRequest lastSyncVersion \<Rightarrow>
          (case ws of
             None \<Rightarrow> ([auth_required], s)
           | Some (u, clientId) \<Rightarrow> (handleSyncRequest u lastSyncVersion s, s))
      | SyncClear \<Rightarrow>
          (case ws of
             None \<Rightarrow> ([auth_required], s)
           | Some (u, clientId) \<Rightarrow> ([], clearAllBookmarks u s))
      | BookmarkCreateMsg requestId d \<Rightarrow>
          (case ws of
             None \<Rightarrow> ([auth_required], s)
           | Some (u, clientId) \<Rightarrow> handleBookmarkCreate u clientId requestId d now s)
      | BookmarkUpdateMsg requestId i d expectedVersion \<Rightarrow>
          (case ws of
             None \<Rightarrow> ([auth_required], s)
           | Some (u, clientId) \<Rightarrow> handleBookmarkUpdate u clientId requestId i d expectedVersion now s)
      | BookmarkDeleteMsg requestId i expectedVersion \<Rightarrow>
          (case ws of
             None \<Rightarrow> ([auth_required], s)
           | Some (u, clientId) \<Rightarrow> handleBookmarkDelete u clientId requestId i expectedVersion now s)
      | BookmarkMoveMsg requestId i newParentId newIndex expectedVersion \<Rightarrow>
          (case ws of
             None \<Rightarrow> ([auth_required], s)
           | Some (u, clientId) \<Rightarrow>
               handleBookmarkMove u clientId requestId i newParentId newIndex expectedVersion now s))"

section \<open>Users, runs and reachable states\<close>

text \<open>
  A user is a row of the users table; \<^verbatim>\<open>createUser\<close> gives it a ledger row in
  sync_versions. The server signs tokens only for the id of such a row (register, login,
  refresh), and \<^verbatim>\<open>authMiddleware\<close> and \<^verbatim>\<open>verifyToken\<close> accept only tokens it
  signed, so every engine call is made for a registered user.
\<close>

definition registered :: "database \<Rightarrow> uuid \<Rightarrow> bool" where
  "registered s u = (u \<in> set (map u_id (users s)))"

definition has_ledger :: "database \<Rightarrow> uuid \<Rightarrow> bool" where
  "has_ledger s u = (u \<in> set (map sv_user_id (sync_versions s)))"

text \<open>The sync-event log of one user, oldest first.\<close>

definition events_of :: "database \<Rightarrow> uuid \<Rightarrow> DbSyncEvent list" where
  "events_of s u = filter (\<lambda>e. ev_user_id e = u) (sync_events s)"

text \<open>The states the server can be in: it starts with empty tables, and every step is
  one call of the database layer for a registered user (or a registration, or the draw of
  an identifier for a broadcast event).\<close>

inductive reachable :: "database \<Rightarrow> bool" where
  start: "reachable initDatabase"
| register: "reachable s \<Longrightarrow> reachable (snd (createUser mail pw now s))"
| uuid: "reachable s \<Longrightarrow> reachable (snd (randomUUID s))"
| create: "reachable s \<Longrightarrow> registered s u \<Longrightarrow> reachable (snd (createBookmark u d c now s))"
| update: "reachable s \<Longrightarrow> registered s u \<Longrightarrow> reachable (snd (updateBookmark i u d ev c now s))"
| delete: "reachable s \<Longrightarrow> registered s u \<Longrightarrow> reachable (snd (deleteBookmark i u ev c now s))"
| move: "reachable s \<Longrightarrow> registered s u \<Longrightarrow> reachable (snd (moveBookmark i u p k ev c now s))"
| clear: "reachable s \<Longrightarrow> registered s u \<Longrightarrow> reachable (clearAllBookmarks u s)"

text \<open>A mutation request as the engine receives it, and a run of requests. A request
  succeeds when the engine returns a result that is not a conflict.\<close>

datatype request =
    CreateReq uuid BookmarkCreateData string int
  | UpdateReq uuid uuid patch int string int
  | DeleteReq uuid uuid int string int
  | MoveReq uuid uuid "uuid option" int int string int

fun request_user :: "request \<Rightarrow> uuid" where
  "request_user (CreateReq u d c now) = u"
| "request_user (UpdateReq i u d ev c now) = u"
| "request_user (DeleteReq i u ev c now) = u"
| "request_user (MoveReq i u p k ev c now) = u"

fun perform :: "request \<Rightarrow> database \<Rightarrow> bool \<times> database" where
  "perform (CreateReq u d c now) s =
     (case createBookmark u d c now s of
        (Inr _, s') \<Rightarrow> (True, s')
      | (Inl _, s') \<Rightarrow> (False, s'))"
| "perform (UpdateReq i u d ev c now) s =
     (case updateBookmark i u d ev c now s of
        (Inr (Applied _ _), s') \<Rightarrow> (True, s')
      | (Inr (Conflict _), s') \<Rightarrow> (False, s')
      | (Inl _, s') \<Rightarrow> (False, s'))"
| "perform (DeleteReq i u ev c now) s =
     (case deleteBookmark i u ev c now s of
        (Inr (Deleted _), s') \<Rightarrow> (True, s')
      | (Inr (DeleteConflict _), s') \<Rightarrow> (False, s')
      | (Inl _, s') \<Rightarrow> (False, s'))"
| "perform (MoveReq i u p k ev c now) s =
     (case moveBookmark i u p k ev c now s of
        (Inr (Applied _ _), s') \<Rightarrow> (True, s')
      | (Inr (Conflict _), s') \<Rightarrow> (False, s')
      | (Inl _, s') \<Rightarrow> (False, s'))"

text \<open>\<open>mutations u rs s\<close> runs the requests \<open>rs\<close> from \<open>s\<close> and counts the successful
  ones made for user \<open>u\<close>.\<close>

fun mutations :: "uuid \<Rightarrow> request list \<Rightarrow> database \<Rightarrow> nat \<times> database" where
  "mutations u [] s = (0, s)"
| "mutations u (r # rs) s =
     (let (ok, s1) = perform r s;
          (n, s2) = mutations u rs s1
      in ((if ok \<and> request_user r = u then Suc n else n), s2))"

text \<open>
  \<open>stamped s u v s'\<close>: from \<open>s\<close> to \<open>s'\<close> the ledger of \<open>u\<close> went up by exactly one, to
  \<open>v\<close>, and the sync-event log grew by exactly one event, of user \<open>u\<close> and with
  syncVersion \<open>v\<close>.
\<close>

definition stamped :: "database \<Rightarrow> uuid \<Rightarrow> int \<Rightarrow> database \<Rightarrow> bool" where
  "stamped s u v s' =
     (v = getSyncVersion s u + 1 \<and> getSyncVersion s' u = v \<and>
      take (length (sync_events s)) (sync_events s') = sync_events s \<and>
      map (\<lambda>e. (ev_user_id e, ev_sync_version e)) (drop (length (sync_events s)) (sync_events s'))
        = [(u, v)])"

section \<open>Auxiliary notions for the proofs\<close>

text \<open>The state after a successful ledger increment followed by the insertion of the
  sync event: what every mutation does once its bookmark row is written.\<close>

definition commit ::
  "uuid \<Rightarrow> event_type \<Rightarrow> uuid \<Rightarrow> event_data \<Rightarrow> string \<Rightarrow> int \<Rightarrow> database \<Rightarrow> database" where
  "commit u ty bookmarkId payload clientId now s =
     s\<lparr>sync_versions :=
         map (\<lambda>r. if sv_user_id r = u then r\<lparr>current_version := getSyncVersion s u + 1\<rparr> else r)
             (sync_versions s),
       sync_events := sync_events s @
         [\<lparr>ev_id = uuid_seed s, ev_user_id = u, ev_type = ty, ev_bookmark_id = bookmarkId,
           ev_data = payload, ev_timestamp = now, ev_client_id = clientId,
           ev_sync_version = getSyncVersion s u + 1\<rparr>],
       uuid_seed := Suc (uuid_seed s)\<rparr>"

definition new_row :: "uuid \<Rightarrow> uuid \<Rightarrow> BookmarkCreateData \<Rightarrow> int \<Rightarrow> DbBookmark" where
  "new_row i u d now =
     \<lparr>db_id = i, user_id = u, parent_id = c_parentId d,
      db_title = c_title d, db_url = c_url d, db_favicon = c_favicon d,
      date_added = now, date_modified = now,
      is_folder = (if c_isFolder d then 1 else 0),
      sort_order = c_sortOrder d, sync_version = 1,
      is_deleted = 0, deleted_at = None\<rparr>"

definition insert_row :: "DbBookmark \<Rightarrow> database \<Rightarrow> database" where
  "insert_row r s = s\<lparr>uuid_seed := Suc (uuid_seed s), bookmarks := bookmarks s @ [r]\<rparr>"

text \<open>Every identifier in the tables was drawn from the counter.\<close>

definition fresh :: "database \<Rightarrow> bool" where
  "fresh s =
     ((\<forall>r \<in> set (users s). u_id r < uuid_seed s) \<and>
      (\<forall>r \<in> set (bookmarks s). db_id r < uuid_seed s) \<and>
      (\<forall>e \<in> set (sync_events s). ev_id e < uuid_seed s \<and> ev_user_id e < uuid_seed s) \<and>
      (\<forall>r \<in> set (sync_versions s). sv_user_id r < uuid_seed s))"

text \<open>Every event belongs to a user with a ledger row, and the log of such a user
  carries the versions 1, 2, ... up to the ledger's value, in this order.\<close>

definition ledger_ok :: "database \<Rightarrow> bool" where
  "ledger_ok s =
     ((\<forall>r \<in> set (sync_versions s). 0 \<le> current_version r) \<and>
      (\<forall>e \<in> set (sync_events s). has_ledger s (ev_user_id e)) \<and>
      (\<forall>u. has_ledger s u \<longrightarrow> map ev_sync_version (events_of s u) = [1..getSyncVersion s u]))"

definition versions_ok :: "database \<Rightarrow> bool" where
  "versions_ok s = (\<forall>r \<in> set (bookmarks s). 1 \<le> sync_version r)"

definition users_ok :: "database \<Rightarrow> bool" where
  "users_ok s = (\<forall>r \<in> set (users s). has_ledger s (u_id r))"

definition consistent :: "database \<Rightarrow> bool" where
  "consistent s = (fresh s \<and> ledger_ok s \<and> versions_ok s \<and> users_ok s)"

text \<open>The primary key of the bookmarks table holds, and every bookmark belongs to a user
  with a ledger row.\<close>

definition rows_ok :: "database \<Rightarrow> bool" where
  "rows_ok s =
     (distinct (map db_id (bookmarks s)) \<and>
      (\<forall>r \<in> set (bookmarks s). has_ledger s (user_id r)))"

text \<open>\<open>creates n u s\<close>: user \<open>u\<close> creates \<open>n\<close> bookmarks, one after the other.\<close>

fun creates :: "nat \<Rightarrow> uuid \<Rightarrow> database \<Rightarrow> database" where
  "creates 0 u s = s"
| "creates (Suc n) u s =
     creates n u
       (snd (createBookmark u
               \<lparr>c_parentId = None, c_title = ''t'', c_url = Some ''https://example.com'',
                c_isFolder = False, c_sortOrder = 0, c_favicon = None\<rparr> ''api'' 0 s))"

section \<open>Concrete states\<close>

text \<open>One registered user (id 0), then one bookmark of that user (id 1, logged as event
  2), then fifty bookmarks.\<close>

definition example_data :: BookmarkCreateData where
  "example_data =
     \<lparr>c_parentId = None, c_title = ''Docs'', c_url = Some ''https://example.com'',
      c_isFolder = False, c_sortOrder = 0, c_favicon = None\<rparr>"

definition rename :: patch where
  "rename =
     \<lparr>p_title = Some ''Manuals'', p_url = None, p_favicon = None, p_sortOrder = None,
      p_expectedVersion = None\<rparr>"

definition one_user :: database where
  "one_user = snd (createUser ''user@example.com'' ''hash'' 0 initDatabase)"

definition one_bookmark :: database where
  "one_bookmark = snd (createBookmark 0 example_data ''api'' 10 one_user)"

text \<open>The bookmark of \<open>one_bookmark\<close> after a delete with the matching version 1.\<close>

definition deleted_bookmark :: database where
  "deleted_bookmark = snd (deleteBookmark 1 0 1 ''api'' 20 one_bookmark)"

definition fifty_bookmarks :: database where
  "fifty_bookmarks = creates 50 0 one_user"

section \<open>Basic facts\<close>

lemma getSyncVersion_init: "getSyncVersion initDatabase u = 0"
  by (simp add: getSyncVersion_def initDatabase_def)

subsection \<open>Observers depend on one table each\<close>

lemma find_bump:
  "find (\<lambda>r. sv_user_id r = u') (map (\<lambda>r. if sv_user_id r = u then r\<lparr>current_version := v\<rparr> else r) xs)
   = map_option (\<lambda>r. if sv_user_id r = u then r\<lparr>current_version := v\<rparr> else r) (find (\<lambda>r. sv_user_id r = u') xs)"
  by (induction xs) auto

lemma find_None_iff_ledger: "find (\<lambda>r. sv_user_id r = u) xs = None \<longleftrightarrow> u \<notin> set (map sv_user_id xs)"
  by (induction xs) auto

lemma getSyncVersion_bump:
  "getSyncVersion (s\<lparr>sync_versions := map (\<lambda>r. if sv_user_id r = u then r\<lparr>current_version := v\<rparr> else r) (sync_versions s)\<rparr>) u'
   = (if u' = u \<and> has_ledger s u then v else getSyncVersion s u')"
proof (cases "find (\<lambda>r. sv_user_id r = u') (sync_versions s)")
  case None
  then show ?thesis
    using find_None_iff_ledger [of u' "sync_versions s"]
    by (auto simp: getSyncVersion_def find_bump has_ledger_def)
next
  case (Some r)
  then have "sv_user_id r = u'" by (auto simp: find_Some_iff)
  moreover have "has_ledger s u'"
    using Some find_None_iff_ledger [of u' "sync_versions s"] by (auto simp: has_ledger_def)
  ultimately show ?thesis using Some
    by (auto simp: getSyncVersion_def find_bump)
qed

lemma has_ledger_bump:
  "has_ledger (s\<lparr>sync_versions := map (\<lambda>r. if sv_user_id r = u then r\<lparr>current_version := v\<rparr> else r) (sync_versions s)\<rparr>) u'
   = has_ledger s u'"
  by (auto simp: has_ledger_def image_iff)

lemma getSyncVersion_nonneg:
  "\<forall>r \<in> set (sync_versions s). 0 \<le> current_version r \<Longrightarrow> 0 \<le> getSyncVersion s u"
  by (auto simp: getSyncVersion_def find_Some_iff split: option.splits)

subsection \<open>commit\<close>

lemma commit_fields [simp]:
  "users (commit u ty b p c now s) = users s"
  "bookmarks (commit u ty b p c now s) = bookmarks s"
  "uuid_seed (commit u ty b p c now s) = Suc (uuid_seed s)"
  by (simp_all add: commit_def)

lemma getSyncVersion_commit:
  "getSyncVersion (commit u ty b p c now s) u' =
     (if u' = u \<and> has_ledger s u then getSyncVersion s u + 1 else getSyncVersion s u')"
  using getSyncVersion_bump [where s = s and u = u and v = "getSyncVersion s u + 1" and u' = u']
  by (simp add: commit_def getSyncVersion_def)

lemma has_ledger_commit [simp]: "has_ledger (commit u ty b p c now s) u' = has_ledger s u'"
  by (auto simp: has_ledger_def commit_def image_iff)

lemma events_of_commit:
  "events_of (commit u ty b p c now s) u' =
     events_of s u' @
       (if u' = u then [\<lparr>ev_id = uuid_seed s, ev_user_id = u, ev_type = ty, ev_bookmark_id = b,
           ev_data = p, ev_timestamp = now, ev_client_id = c,
           ev_sync_version = getSyncVersion s u + 1\<rparr>] else [])"
  by (simp add: events_of_def commit_def)

lemma getBookmarkById_commit [simp]:
  "getBookmarkById (commit u ty b p c now s) i u' = getBookmarkById s i u'"
  by (simp add: getBookmarkById_def)

lemma registered_commit [simp]: "registered (commit u ty b p c now s) u' = registered s u'"
  by (simp add: registered_def)

lemma has_ledger_less: "fresh s \<Longrightarrow> has_ledger s u \<Longrightarrow> u < uuid_seed s"
  by (auto simp: fresh_def has_ledger_def)

lemma fresh_commit: "fresh s \<Longrightarrow> has_ledger s u \<Longrightarrow> fresh (commit u ty b p c now s)"
  using has_ledger_less [of s u]
  by (auto simp: fresh_def commit_def less_Suc_eq)

lemma ledger_ok_commit:
  assumes ok: "ledger_ok s" and led: "has_ledger s u"
  shows "ledger_ok (commit u ty b p c now s)"
proof -
  have nn: "\<forall>r \<in> set (sync_versions s). 0 \<le> current_version r"
    using ok by (simp add: ledger_ok_def)
  have v0: "0 \<le> getSyncVersion s u" by (rule getSyncVersion_nonneg [OF nn])
  have 1: "\<forall>r \<in> set (sync_versions (commit u ty b p c now s)). 0 \<le> current_version r"
    using nn v0 by (auto simp: commit_def)
  have 2: "map ev_sync_version (events_of (commit u ty b p c now s) u')
           = [1..getSyncVersion (commit u ty b p c now s) u']" if "has_ledger s u'" for u'
  proof (cases "u' = u")
    case True
    have "map ev_sync_version (events_of s u) = [1..getSyncVersion s u]"
      using ok led by (simp add: ledger_ok_def)
    moreover have "[1..getSyncVersion s u + 1] = [1..getSyncVersion s u] @ [getSyncVersion s u + 1]"
      using v0 upto_rec2 [of 1 "getSyncVersion s u + 1"] by simp
    ultimately show ?thesis using True led
      by (simp add: events_of_commit getSyncVersion_commit)
  next
    case False
    then show ?thesis using ok that
      by (simp add: events_of_commit getSyncVersion_commit ledger_ok_def)
  qed
  have 3: "\<forall>e \<in> set (sync_events (commit u ty b p c now s)). has_ledger s (ev_user_id e)"
    using ok led by (auto simp: ledger_ok_def commit_def)
  show ?thesis unfolding ledger_ok_def using 1 2 3 by simp
qed

lemma versions_ok_commit [simp]: "versions_ok (commit u ty b p c now s) = versions_ok s"
  by (simp add: versions_ok_def)

lemma users_ok_commit [simp]: "users_ok (commit u ty b p c now s) = users_ok s"
  by (simp add: users_ok_def)

lemma consistent_commit: "consistent s \<Longrightarrow> has_ledger s u \<Longrightarrow> consistent (commit u ty b p c now s)"
  by (simp add: consistent_def fresh_commit ledger_ok_commit)

subsection \<open>Writes to the bookmarks table\<close>

lemma update_where_fields [simp]:
  "users (update_where i u f s) = users s"
  "sync_events (update_where i u f s) = sync_events s"
  "sync_versions (update_where i u f s) = sync_versions s"
  "uuid_seed (update_where i u f s) = uuid_seed s"
  by (simp_all add: update_where_def)

lemma observers_update_where [simp]:
  "getSyncVersion (update_where i u f s) u' = getSyncVersion s u'"
  "has_ledger (update_where i u f s) u' = has_ledger s u'"
  "events_of (update_where i u f s) u' = events_of s u'"
  "registered (update_where i u f s) u' = registered s u'"
  by (simp_all add: getSyncVersion_def has_ledger_def events_of_def registered_def)

lemma consistent_update_where:
  assumes "consistent s" and "\<And>r. db_id (f r) = db_id r" and "\<And>r. 1 \<le> sync_version r \<Longrightarrow> 1 \<le> sync_version (f r)"
  shows "consistent (update_where i u f s)"
proof -
  have "fresh (update_where i u f s)"
    using assms(1,2) by (auto simp: consistent_def fresh_def update_where_def)
  moreover have "ledger_ok (update_where i u f s)"
    using assms(1) by (simp add: consistent_def ledger_ok_def)
  moreover have "versions_ok (update_where i u f s)"
    using assms(1,3) by (auto simp: consistent_def versions_ok_def update_where_def)
  moreover have "users_ok (update_where i u f s)"
    using assms(1) by (simp add: consistent_def users_ok_def)
  ultimately show ?thesis by (simp add: consistent_def)
qed

lemma insert_row_fields [simp]:
  "users (insert_row r s) = users s"
  "sync_events (insert_row r s) = sync_events s"
  "sync_versions (insert_row r s) = sync_versions s"
  "uuid_seed (insert_row r s) = Suc (uuid_seed s)"
  "bookmarks (insert_row r s) = bookmarks s @ [r]"
  by (simp_all add: insert_row_def)

lemma observers_insert_row [simp]:
  "getSyncVersion (insert_row r s) u' = getSyncVersion s u'"
  "has_ledger (insert_row r s) u' = has_ledger s u'"
  "events_of (insert_row r s) u' = events_of s u'"
  "registered (insert_row r s) u' = registered s u'"
  by (simp_all add: getSyncVersion_def has_ledger_def events_of_def registered_def)

lemma consistent_insert_row:
  assumes "consistent s" and "db_id r = uuid_seed s" and "1 \<le> sync_version r"
  shows "consistent (insert_row r s)"
proof -
  have "fresh (insert_row r s)"
    using assms(1,2) by (auto simp: consistent_def fresh_def less_Suc_eq)
  moreover have "ledger_ok (insert_row r s)"
    using assms(1) by (simp add: consistent_def ledger_ok_def)
  moreover have "versions_ok (insert_row r s)"
    using assms(1,3) by (auto simp: consistent_def versions_ok_def)
  moreover have "users_ok (insert_row r s)"
    using assms(1) by (simp add: consistent_def users_ok_def)
  ultimately show ?thesis by (simp add: consistent_def)
qed

subsection \<open>clearAllBookmarks, createUser, randomUUID\<close>

lemma clear_fields [simp]:
  "users (clearAllBookmarks u s) = users s"
  "uuid_seed (clearAllBookmarks u s) = uuid_seed s"
  "bookmarks (clearAllBookmarks u s) = filter (\<lambda>r. user_id r \<noteq> u) (bookmarks s)"
  "sync_events (clearAllBookmarks u s) = filter (\<lambda>e. ev_user_id e \<noteq> u) (sync_events s)"
  by (simp_all add: clearAllBookmarks_def)

lemma getSyncVersion_clear:
  "getSyncVersion (clearAllBookmarks u s) u' = (if u' = u then 0 else getSyncVersion s u')"
proof -
  have "getSyncVersion (clearAllBookmarks u s) u' =
        (if u' = u \<and> has_ledger s u then 0 else getSyncVersion s u')"
    using getSyncVersion_bump [where s = s and u = u and v = 0 and u' = u']
    by (simp add: clearAllBookmarks_def getSyncVersion_def)
  moreover have "getSyncVersion s u = 0" if "\<not> has_ledger s u"
    using that find_None_iff_ledger [of u "sync_versions s"]
    by (simp add: getSyncVersion_def has_ledger_def)
  ultimately show ?thesis by auto
qed

lemma has_ledger_clear [simp]: "has_ledger (clearAllBookmarks u s) u' = has_ledger s u'"
  by (auto simp: has_ledger_def clearAllBookmarks_def image_iff)

lemma registered_clear [simp]: "registered (clearAllBookmarks u s) u' = registered s u'"
  by (simp add: registered_def)

lemma events_of_clear:
  "events_of (clearAllBookmarks u s) u' = (if u' = u then [] else events_of s u')"
  by (induction "sync_events s" arbitrary: s) (auto simp: events_of_def filter_empty_conv intro: filter_cong)

lemma consistent_clear: "consistent s \<Longrightarrow> consistent (clearAllBookmarks u s)"
proof -
  assume c: "consistent s"
  have "fresh (clearAllBookmarks u s)"
    using c by (auto simp: consistent_def fresh_def clearAllBookmarks_def)
  moreover have "ledger_ok (clearAllBookmarks u s)"
    unfolding ledger_ok_def
  proof (intro conjI allI impI)
    show "\<forall>r\<in>set (sync_versions (clearAllBookmarks u s)). 0 \<le> current_version r"
      using c by (auto simp: consistent_def ledger_ok_def clearAllBookmarks_def)
  next
    show "\<forall>e\<in>set (sync_events (clearAllBookmarks u s)). has_ledger (clearAllBookmarks u s) (ev_user_id e)"
      using c by (auto simp: consistent_def ledger_ok_def)
  next
    fix u' assume "has_ledger (clearAllBookmarks u s) u'"
    then show "map ev_sync_version (events_of (clearAllBookmarks u s) u')
               = [1..getSyncVersion (clearAllBookmarks u s) u']"
      using c by (simp add: consistent_def ledger_ok_def events_of_clear getSyncVersion_clear)
  qed
  moreover have "versions_ok (clearAllBookmarks u s)"
    using c by (auto simp: consistent_def versions_ok_def)
  moreover have "users_ok (clearAllBookmarks u s)"
    using c by (simp add: consistent_def users_ok_def)
  ultimately show ?thesis by (simp add: consistent_def)
qed

lemma consistent_randomUUID: "consistent s \<Longrightarrow> consistent (snd (randomUUID s))"
proof -
  assume c: "consistent s"
  let ?s = "s\<lparr>uuid_seed := Suc (uuid_seed s)\<rparr>"
  have "fresh ?s" using c by (auto simp: consistent_def fresh_def less_Suc_eq)
  moreover have "ledger_ok ?s"
    using c by (simp add: consistent_def ledger_ok_def has_ledger_def events_of_def getSyncVersion_def)
  moreover have "versions_ok ?s" using c by (simp add: consistent_def versions_ok_def)
  moreover have "users_ok ?s" using c by (simp add: consistent_def users_ok_def has_ledger_def)
  ultimately show ?thesis by (simp add: consistent_def randomUUID_def)
qed

lemma find_append_ledger:
  "find P (xs @ [x]) = (case find P xs of None \<Rightarrow> (if P x then Some x else None) | Some y \<Rightarrow> Some y)"
  by (induction xs) auto

lemma createUser_cases:
  "createUser mail pw now s = (Inl SqlConstraint, snd (randomUUID s)) \<or>
   (\<exists>e. createUser mail pw now s = (Inl e, s\<lparr>uuid_seed := Suc (uuid_seed s),
        users := users s @ [\<lparr>u_id = uuid_seed s, email = mail, password_hash = pw,
                 created_at = now, updated_at = now\<rparr>]\<rparr>) \<and> has_ledger s (uuid_seed s)) \<or>
   createUser mail pw now s =
     (Inr \<lparr>u_id = uuid_seed s, email = mail, password_hash = pw, created_at = now, updated_at = now\<rparr>,
      s\<lparr>uuid_seed := Suc (uuid_seed s),
        users := users s @ [\<lparr>u_id = uuid_seed s, email = mail, password_hash = pw,
                 created_at = now, updated_at = now\<rparr>],
        sync_versions := sync_versions s @ [\<lparr>sv_user_id = uuid_seed s, current_version = 0\<rparr>]\<rparr>)"
  by (auto simp: createUser_def randomUUID_def Let_def has_ledger_def)

lemma consistent_createUser: "consistent s \<Longrightarrow> consistent (snd (createUser mail pw now s))"
proof -
  assume c: "consistent s"
  let ?row = "\<lparr>u_id = uuid_seed s, email = mail, password_hash = pw, created_at = now, updated_at = now\<rparr>"
  let ?s = "s\<lparr>uuid_seed := Suc (uuid_seed s), users := users s @ [?row],
        sync_versions := sync_versions s @ [\<lparr>sv_user_id = uuid_seed s, current_version = 0\<rparr>]\<rparr>"
  have nl: "\<not> has_ledger s (uuid_seed s)"
    using c has_ledger_less [of s "uuid_seed s"] by (auto simp: consistent_def)
  have gv: "getSyncVersion ?s u = getSyncVersion s u" for u
    using nl find_None_iff_ledger [of "uuid_seed s" "sync_versions s"]
    by (auto simp: getSyncVersion_def find_append_ledger has_ledger_def split: option.splits)
  have hl: "has_ledger ?s u = (u = uuid_seed s \<or> has_ledger s u)" for u
    by (auto simp: has_ledger_def)
  have ev: "events_of ?s u = events_of s u" for u
    by (simp add: events_of_def)
  have ev0: "events_of s (uuid_seed s) = []"
    using c by (auto simp: consistent_def fresh_def events_of_def filter_empty_conv)
  have g0: "getSyncVersion s (uuid_seed s) = 0"
    using nl find_None_iff_ledger [of "uuid_seed s" "sync_versions s"]
    by (simp add: getSyncVersion_def has_ledger_def)
  have "fresh ?s" using c by (auto simp: consistent_def fresh_def less_Suc_eq)
  moreover have "ledger_ok ?s"
    unfolding ledger_ok_def
  proof (intro conjI allI impI)
    show "\<forall>r\<in>set (sync_versions ?s). 0 \<le> current_version r"
      using c by (auto simp: consistent_def ledger_ok_def)
  next
    show "\<forall>e\<in>set (sync_events ?s). has_ledger ?s (ev_user_id e)"
      using c unfolding hl by (auto simp: consistent_def ledger_ok_def)
  next
    fix u assume "has_ledger ?s u"
    then show "map ev_sync_version (events_of ?s u) = [1..getSyncVersion ?s u]"
      using c ev0 g0 unfolding ev gv hl by (auto simp: consistent_def ledger_ok_def)
  qed
  moreover have "versions_ok ?s" using c by (simp add: consistent_def versions_ok_def)
  moreover have "users_ok ?s" using c unfolding users_ok_def hl by (auto simp: consistent_def users_ok_def)
  ultimately have "consistent ?s" by (simp add: consistent_def)
  then show ?thesis
    using createUser_cases [of mail pw now s] nl consistent_randomUUID [OF c]
    by auto
qed

subsection \<open>The mutations in a state with fresh identifiers\<close>

lemma fresh_event_id: "fresh s \<Longrightarrow> uuid_seed s \<notin> ev_id ` set (sync_events s)"
  by (auto simp: fresh_def)

lemma log_step:
  assumes "uuid_seed s \<notin> ev_id ` set (sync_events s)"
  shows "recordSyncEvent u ty b p c (getSyncVersion s u + 1) now (snd (incrementSyncVersion u s))
         = (Inr (), commit u ty b p c now s)"
  using assms
  by (auto simp: incrementSyncVersion_def recordSyncEvent_def randomUUID_def commit_def Let_def)

lemma fst_incrementSyncVersion [simp]: "fst (incrementSyncVersion u s) = getSyncVersion s u + 1"
  by (simp add: incrementSyncVersion_def Let_def)

lemma updateBookmark_fresh:
  assumes "fresh s"
  shows "updateBookmark i u d ev c now s =
     (case getBookmarkById s i u of
        None \<Rightarrow> (Inl BookmarkNotFound, s)
      | Some existing \<Rightarrow>
          if syncVersion existing \<noteq> ev then (Inr (Conflict existing), s)
          else (Inr (Applied (getBookmarkById (update_where i u (apply_patch d now) s) i u)
                             (getSyncVersion s u + 1)),
                commit u Update i (UpdatePayload d) c now (update_where i u (apply_patch d now) s)))"
proof -
  let ?s1 = "update_where i u (apply_patch d now) s"
  have "uuid_seed ?s1 \<notin> ev_id ` set (sync_events ?s1)"
    using fresh_event_id [OF assms] by simp
  from log_step [OF this, where u = u and ty = Update and b = i and p = "UpdatePayload d" and c = c and now = now]
  show ?thesis
    by (simp add: updateBookmark_def Let_def case_prod_beta split: option.splits)
qed

lemma moveBookmark_fresh:
  assumes "fresh s"
  shows "moveBookmark i u p k ev c now s =
     (case getBookmarkById s i u of
        None \<Rightarrow> (Inl BookmarkNotFound, s)
      | Some existing \<Rightarrow>
          if syncVersion existing \<noteq> ev then (Inr (Conflict existing), s)
          else (Inr (Applied (getBookmarkById (update_where i u
                        (\<lambda>r. r\<lparr>parent_id := p, sort_order := k,
                               date_modified := now, sync_version := sync_version r + 1\<rparr>) s) i u)
                             (getSyncVersion s u + 1)),
                commit u Move i (MovePayload p k) c now (update_where i u
                        (\<lambda>r. r\<lparr>parent_id := p, sort_order := k,
                               date_modified := now, sync_version := sync_version r + 1\<rparr>) s)))"
proof -
  let ?s1 = "update_where i u (\<lambda>r. r\<lparr>parent_id := p, sort_order := k,
                               date_modified := now, sync_version := sync_version r + 1\<rparr>) s"
  have "uuid_seed ?s1 \<notin> ev_id ` set (sync_events ?s1)"
    using fresh_event_id [OF assms] by simp
  from log_step [OF this, where u = u and ty = Move and b = i and p = "MovePayload p k" and c = c and now = now]
  show ?thesis
    by (simp add: moveBookmark_def Let_def case_prod_beta split: option.splits)
qed

lemma deleteBookmark_fresh:
  assumes "fresh s"
  shows "deleteBookmark i u ev c now s =
     (case getBookmarkById s i u of
        None \<Rightarrow> (Inl BookmarkNotFound, s)
      | Some existing \<Rightarrow>
          if syncVersion existing \<noteq> ev then (Inr (DeleteConflict existing), s)
          else (Inr (Deleted (getSyncVersion s u + 1)),
                commit u Delete i EmptyPayload c now (update_where i u
                        (\<lambda>r. r\<lparr>is_deleted := 1, deleted_at := Some now, date_modified := now\<rparr>) s)))"
proof -
  let ?s1 = "update_where i u (\<lambda>r. r\<lparr>is_deleted := 1, deleted_at := Some now, date_modified := now\<rparr>) s"
  have "uuid_seed ?s1 \<notin> ev_id ` set (sync_events ?s1)"
    using fresh_event_id [OF assms] by simp
  from log_step [OF this, where u = u and ty = Delete and b = i and p = EmptyPayload and c = c and now = now]
  show ?thesis
    by (simp add: deleteBookmark_def Let_def case_prod_beta split: option.splits)
qed

lemma find_new_row:
  assumes "\<forall>r \<in> set xs. db_id r \<noteq> i" and "db_id x = i" and "user_id x = u"
  shows "find (\<lambda>r. db_id r = i \<and> user_id r = u) (xs @ [x]) = Some x"
  using assms by (induction xs) auto

lemma createBookmark_fresh:
  assumes "fresh s"
  shows "createBookmark u d c now s =
     (Inr (Some (toBookmark (new_row (uuid_seed s) u d now)), getSyncVersion s u + 1),
      commit u Create (uuid_seed s) (CreatePayload d (uuid_seed s)) c now
        (insert_row (new_row (uuid_seed s) u d now) s))"
proof -
  let ?row = "new_row (uuid_seed s) u d now"
  let ?s2 = "insert_row ?row s"
  have nb: "uuid_seed s \<notin> db_id ` set (bookmarks s)"
    using assms by (auto simp: fresh_def)
  have "uuid_seed ?s2 \<notin> ev_id ` set (sync_events ?s2)"
    using assms by (auto simp: fresh_def)
  note ls = log_step [OF this, where u = u and ty = Create and b = "uuid_seed s" and p = "CreatePayload d (uuid_seed s)" and c = c and now = now]
  have "\<forall>r \<in> set (bookmarks s). db_id r \<noteq> uuid_seed s"
    using assms by (auto simp: fresh_def)
  moreover have "db_id ?row = uuid_seed s" "user_id ?row = u"
    by (simp_all add: new_row_def)
  ultimately have "find (\<lambda>r. db_id r = uuid_seed s \<and> user_id r = u) (bookmarks s @ [?row]) = Some ?row"
    by (rule find_new_row)
  then have gb: "getBookmarkById ?s2 (uuid_seed s) u = Some (toBookmark ?row)"
    by (simp add: getBookmarkById_def)
  have s2: "(s\<lparr>uuid_seed := Suc (uuid_seed s)\<rparr>)\<lparr>bookmarks := bookmarks s @ [?row]\<rparr> = ?s2"
    by (simp add: insert_row_def)
  show ?thesis
    unfolding createBookmark_def randomUUID_def Let_def
    using nb ls gb
    by (simp add: case_prod_beta new_row_def [symmetric] s2)
qed

subsection \<open>Every reachable state is consistent\<close>

lemma consistent_fresh: "consistent s \<Longrightarrow> fresh s"
  by (simp add: consistent_def)

lemma registered_has_ledger: "consistent s \<Longrightarrow> registered s u \<Longrightarrow> has_ledger s u"
  by (auto simp: consistent_def users_ok_def registered_def)

lemma sync_version_apply_patch [simp]: "sync_version (apply_patch d now r) = sync_version r + 1"
  by (simp add: apply_patch_def Let_def split: option.splits)

lemma db_id_apply_patch [simp]: "db_id (apply_patch d now r) = db_id r"
  by (simp add: apply_patch_def Let_def split: option.splits)

lemma user_id_apply_patch [simp]: "user_id (apply_patch d now r) = user_id r"
  by (simp add: apply_patch_def Let_def split: option.splits)

lemma consistent_createBookmark:
  assumes "consistent s" and "has_ledger s u"
  shows "consistent (snd (createBookmark u d c now s))"
proof -
  have "consistent (insert_row (new_row (uuid_seed s) u d now) s)"
    using assms(1) by (rule consistent_insert_row) (simp_all add: new_row_def)
  then show ?thesis
    using assms by (simp add: createBookmark_fresh [OF consistent_fresh] consistent_commit)
qed

lemma consistent_updateBookmark:
  assumes "consistent s" and "has_ledger s u"
  shows "consistent (snd (updateBookmark i u d ev c now s))"
proof -
  have "consistent (update_where i u (apply_patch d now) s)"
    using assms(1) by (rule consistent_update_where) simp_all
  then show ?thesis
    using assms
    by (simp add: updateBookmark_fresh [OF consistent_fresh] consistent_commit split: option.splits)
qed

lemma consistent_moveBookmark:
  assumes "consistent s" and "has_ledger s u"
  shows "consistent (snd (moveBookmark i u p k ev c now s))"
proof -
  have "consistent (update_where i u (\<lambda>r. r\<lparr>parent_id := p, sort_order := k,
                               date_modified := now, sync_version := sync_version r + 1\<rparr>) s)"
    using assms(1) by (rule consistent_update_where) simp_all
  then show ?thesis
    using assms
    by (simp add: moveBookmark_fresh [OF consistent_fresh] consistent_commit split: option.splits)
qed

lemma consistent_deleteBookmark:
  assumes "consistent s" and "has_ledger s u"
  shows "consistent (snd (deleteBookmark i u ev c now s))"
proof -
  have "consistent (update_where i u
          (\<lambda>r. r\<lparr>is_deleted := 1, deleted_at := Some now, date_modified := now\<rparr>) s)"
    using assms(1) by (rule consistent_update_where) simp_all
  then show ?thesis
    using assms
    by (simp add: deleteBookmark_fresh [OF consistent_fresh] consistent_commit split: option.splits)
qed

lemma consistent_init: "consistent initDatabase"
  by (simp add: consistent_def fresh_def ledger_ok_def versions_ok_def users_ok_def
      initDatabase_def has_ledger_def)

lemma reachable_consistent: "reachable s \<Longrightarrow> consistent s"
proof (induction rule: reachable.induct)
  case start
  show ?case by (rule consistent_init)
next
  case (register s mail pw now)
  then show ?case by (simp add: consistent_createUser)
next
  case (uuid s)
  then show ?case by (simp add: consistent_randomUUID)
next
  case (create s u d c now)
  then show ?case by (simp add: consistent_createBookmark registered_has_ledger)
next
  case (update s u i d ev c now)
  then show ?case by (simp add: consistent_updateBookmark registered_has_ledger)
next
  case (delete s u i ev c now)
  then show ?case by (simp add: consistent_deleteBookmark registered_has_ledger)
next
  case (move s u i p k ev c now)
  then show ?case by (simp add: consistent_moveBookmark registered_has_ledger)
next
  case (clear s u)
  then show ?case by (simp add: consistent_clear)
qed

subsection \<open>The concrete states\<close>

lemma one_user_eq:
  "one_user = \<lparr>users = [\<lparr>u_id = 0, email = ''user@example.com'', password_hash = ''hash'',
                           created_at = 0, updated_at = 0\<rparr>],
               bookmarks = [], sync_events = [],
               sync_versions = [\<lparr>sv_user_id = 0, current_version = 0\<rparr>], uuid_seed = 1\<rparr>"
  by (simp add: one_user_def createUser_def randomUUID_def initDatabase_def Let_def)

lemma one_bookmark_eq:
  "one_bookmark =
     \<lparr>users = [\<lparr>u_id = 0, email = ''user@example.com'', password_hash = ''hash'',
                created_at = 0, updated_at = 0\<rparr>],
      bookmarks = [new_row 1 0 example_data 10],
      sync_events = [\<lparr>ev_id = 2, ev_user_id = 0, ev_type = Create, ev_bookmark_id = 1,
                      ev_data = CreatePayload example_data 1, ev_timestamp = 10,
                      ev_client_id = ''api'', ev_sync_version = 1\<rparr>],
      sync_versions = [\<lparr>sv_user_id = 0, current_version = 1\<rparr>], uuid_seed = 3\<rparr>"
  by (simp add: one_bookmark_def one_user_eq createBookmark_def randomUUID_def Let_def
      incrementSyncVersion_def recordSyncEvent_def getSyncVersion_def new_row_def)

lemma reachable_one_user: "reachable one_user"
  unfolding one_user_def by (intro reachable.register reachable.start)

lemma registered_one_user: "registered one_user 0"
  by (simp add: one_user_eq registered_def)

lemma reachable_one_bookmark: "reachable one_bookmark"
  unfolding one_bookmark_def
  by (intro reachable.create reachable_one_user registered_one_user)

lemma registered_one_bookmark: "registered one_bookmark 0"
  by (simp add: one_bookmark_eq registered_def)

lemma getBookmarkById_one_bookmark:
  "getBookmarkById one_bookmark 1 0 = Some (toBookmark (new_row 1 0 example_data 10))"
  by (simp add: one_bookmark_eq getBookmarkById_def new_row_def)

lemma syncVersion_new_row [simp]: "syncVersion (toBookmark (new_row i u d now)) = 1"
  by (simp add: toBookmark_def new_row_def)

section \<open>The optimistic version check\<close>

text \<open>
  C5. For an update, move or soft-delete of an existing bookmark, the call returns a
  conflict carrying the stored bookmark if and only if the stored per-bookmark
  syncVersion differs from the caller's expectedVersion, and a call that returns a
  conflict returns the database as it was: the bookmark row, the ledger and the
  sync-event log are unchanged.
\<close>

theorem conflict_iff_version_differs:
  assumes "getBookmarkById s i u = Some existing"
  shows "((\<exists>b s'. updateBookmark i u d ev c now s = (Inr (Conflict b), s')) \<longleftrightarrow> syncVersion existing \<noteq> ev)
       \<and> ((\<exists>b s'. moveBookmark i u p k ev c now s = (Inr (Conflict b), s')) \<longleftrightarrow> syncVersion existing \<noteq> ev)
       \<and> ((\<exists>b s'. deleteBookmark i u ev c now s = (Inr (DeleteConflict b), s')) \<longleftrightarrow> syncVersion existing \<noteq> ev)
       \<and> (syncVersion existing \<noteq> ev \<longrightarrow>
            updateBookmark i u d ev c now s = (Inr (Conflict existing), s)
          \<and> moveBookmark i u p k ev c now s = (Inr (Conflict existing), s)
          \<and> deleteBookmark i u ev c now s = (Inr (DeleteConflict existing), s))"
proof (intro conjI impI)
  show "(\<exists>b s'. updateBookmark i u d ev c now s = (Inr (Conflict b), s')) \<longleftrightarrow> syncVersion existing \<noteq> ev"
    using assms
    by (auto simp: updateBookmark_def Let_def case_prod_beta split: sum.splits prod.splits)
  show "(\<exists>b s'. moveBookmark i u p k ev c now s = (Inr (Conflict b), s')) \<longleftrightarrow> syncVersion existing \<noteq> ev"
    using assms
    by (auto simp: moveBookmark_def Let_def case_prod_beta split: sum.splits prod.splits)
  show "(\<exists>b s'. deleteBookmark i u ev c now s = (Inr (DeleteConflict b), s')) \<longleftrightarrow> syncVersion existing \<noteq> ev"
    using assms
    by (auto simp: deleteBookmark_def Let_def case_prod_beta split: sum.splits prod.splits)
next
  assume "syncVersion existing \<noteq> ev"
  then show "updateBookmark i u d ev c now s = (Inr (Conflict existing), s)"
    and "moveBookmark i u p k ev c now s = (Inr (Conflict existing), s)"
    and "deleteBookmark i u ev c now s = (Inr (DeleteConflict existing), s)"
    using assms by (simp_all add: updateBookmark_def moveBookmark_def deleteBookmark_def)
qed

theorem conflict_iff_version_differs_witness:
  "getBookmarkById one_bookmark 1 0 = Some (toBookmark (new_row 1 0 example_data 10))
   \<and> updateBookmark 1 0 rename 7 ''api'' 20 one_bookmark
       = (Inr (Conflict (toBookmark (new_row 1 0 example_data 10))), one_bookmark)
   \<and> moveBookmark 1 0 None 3 7 ''api'' 20 one_bookmark
       = (Inr (Conflict (toBookmark (new_row 1 0 example_data 10))), one_bookmark)
   \<and> deleteBookmark 1 0 7 ''api'' 20 one_bookmark
       = (Inr (DeleteConflict (toBookmark (new_row 1 0 example_data 10))), one_bookmark)
   \<and> \<not> (\<exists>b s'. updateBookmark 1 0 rename 1 ''api'' 20 one_bookmark = (Inr (Conflict b), s'))"
  using conflict_iff_version_differs [OF getBookmarkById_one_bookmark, of rename 7 "''api''" 20 None 3]
    conflict_iff_version_differs [OF getBookmarkById_one_bookmark, of rename 1 "''api''" 20 None 3]
    getBookmarkById_one_bookmark
  by simp

lemma deleted_bookmark_eq:
  "deleted_bookmark =
     \<lparr>users = [\<lparr>u_id = 0, email = ''user@example.com'', password_hash = ''hash'',
                created_at = 0, updated_at = 0\<rparr>],
      bookmarks = [(new_row 1 0 example_data 10)\<lparr>is_deleted := 1, deleted_at := Some 20, date_modified := 20\<rparr>],
      sync_events = [\<lparr>ev_id = 2, ev_user_id = 0, ev_type = Create, ev_bookmark_id = 1,
                      ev_data = CreatePayload example_data 1, ev_timestamp = 10,
                      ev_client_id = ''api'', ev_sync_version = 1\<rparr>,
                     \<lparr>ev_id = 3, ev_user_id = 0, ev_type = Delete, ev_bookmark_id = 1,
                      ev_data = EmptyPayload, ev_timestamp = 20,
                      ev_client_id = ''api'', ev_sync_version = 2\<rparr>],
      sync_versions = [\<lparr>sv_user_id = 0, current_version = 2\<rparr>], uuid_seed = 4\<rparr>"
  by (simp add: deleted_bookmark_def one_bookmark_eq deleteBookmark_def getBookmarkById_def
      update_where_def Let_def incrementSyncVersion_def recordSyncEvent_def randomUUID_def
      getSyncVersion_def new_row_def toBookmark_def)

lemma reachable_deleted_bookmark: "reachable deleted_bookmark"
  unfolding deleted_bookmark_def
  by (intro reachable.delete reachable_one_bookmark registered_one_bookmark)

lemma getBookmarkById_deleted_bookmark:
  "getBookmarkById deleted_bookmark 1 0 =
     Some (toBookmark ((new_row 1 0 example_data 10)\<lparr>is_deleted := 1, deleted_at := Some 20, date_modified := 20\<rparr>))"
  by (simp add: deleted_bookmark_eq getBookmarkById_def new_row_def)

subsection \<open>Lookups\<close>

lemma find_map_where:
  assumes "\<And>r. db_id (f r) = db_id r" and "\<And>r. user_id (f r) = user_id r"
  shows "find (\<lambda>r. db_id r = i \<and> user_id r = u)
           (map (\<lambda>r. if db_id r = i \<and> user_id r = u then f r else r) xs)
         = map_option f (find (\<lambda>r. db_id r = i \<and> user_id r = u) xs)"
  using assms by (induction xs) auto

lemma getBookmarkById_row:
  "getBookmarkById s i u = Some b \<Longrightarrow>
     \<exists>r \<in> set (bookmarks s). b = toBookmark r \<and> db_id r = i \<and> user_id r = u
       \<and> find (\<lambda>r. db_id r = i \<and> user_id r = u) (bookmarks s) = Some r"
  by (auto simp: getBookmarkById_def find_Some_iff)

lemma getBookmarkById_update_where:
  assumes "\<And>r. db_id (f r) = db_id r" and "\<And>r. user_id (f r) = user_id r"
  shows "getBookmarkById (update_where i u f s) i u
         = map_option (toBookmark \<circ> f) (find (\<lambda>r. db_id r = i \<and> user_id r = u) (bookmarks s))"
  using find_map_where [of f i u "bookmarks s", OF assms]
  by (simp add: getBookmarkById_def update_where_def option.map_comp)

lemma stored_version_positive:
  "consistent s \<Longrightarrow> getBookmarkById s i u = Some b \<Longrightarrow> 1 \<le> syncVersion b"
  by (auto simp: consistent_def versions_ok_def toBookmark_def dest!: getBookmarkById_row)

section \<open>Conflicts at the transport adapters\<close>

text \<open>
  C7. When the optimistic version check fails, the REST update (PUT and PATCH), move and
  delete handlers answer HTTP 200 with the body \<^verbatim>\<open>{success: true}\<close>, while the WebSocket
  handlers for the same operations send a conflict message that carries the stored
  bookmark; in both cases the write is discarded, the database is as before. The REST
  handlers check against the version of the body (0 when absent), of the query (0 when
  absent) and, for move, against the literal 0.
\<close>

theorem rest_masks_conflict_websocket_reports_it:
  assumes "getBookmarkById s i u = Some existing"
  shows "(syncVersion existing \<noteq> (case p_expectedVersion d of None \<Rightarrow> 0 | Some v \<Rightarrow> v) \<longrightarrow>
            router_put_id i u (Some d) now s = (Response 200 SuccessTrue, s)
          \<and> router_patch_id i u (Some d) now s = (Response 200 SuccessTrue, s))
       \<and> (syncVersion existing \<noteq> 0 \<longrightarrow>
            router_put_id_move i u p k now s = (Response 200 SuccessTrue, s))
       \<and> (syncVersion existing \<noteq> (case q of None \<Rightarrow> 0 | Some v \<Rightarrow> v) \<longrightarrow>
            router_delete_id i u q now s = (Response 200 SuccessTrue, s))
       \<and> (syncVersion existing \<noteq> ev \<longrightarrow>
            handleBookmarkUpdate u c rid i d ev now s
              = ([Send (ConflictMsg rid i existing (UpdatePayload d))], s)
          \<and> handleBookmarkMove u c rid i p n ev now s
              = ([Send (ConflictMsg rid i existing (MovePayload p n))], s)
          \<and> handleBookmarkDelete u c rid i ev now s
              = ([Send (ConflictMsg rid i existing EmptyPayload)], s))"
proof (intro conjI impI)
  assume "syncVersion existing \<noteq> (case p_expectedVersion d of None \<Rightarrow> 0 | Some v \<Rightarrow> v)"
  then show "router_put_id i u (Some d) now s = (Response 200 SuccessTrue, s)"
    and "router_patch_id i u (Some d) now s = (Response 200 SuccessTrue, s)"
    using assms by (simp_all add: router_put_id_def router_patch_id_def updateBookmark_def)
next
  assume "syncVersion existing \<noteq> 0"
  then show "router_put_id_move i u p k now s = (Response 200 SuccessTrue, s)"
    using assms by (simp add: router_put_id_move_def moveBookmark_def)
next
  assume "syncVersion existing \<noteq> (case q of None \<Rightarrow> 0 | Some v \<Rightarrow> v)"
  then show "router_delete_id i u q now s = (Response 200 SuccessTrue, s)"
    using assms by (simp add: router_delete_id_def deleteBookmark_def)
next
  assume "syncVersion existing \<noteq> ev"
  then show "handleBookmarkUpdate u c rid i d ev now s
              = ([Send (ConflictMsg rid i existing (UpdatePayload d))], s)"
    and "handleBookmarkMove u c rid i p n ev now s
              = ([Send (ConflictMsg rid i existing (MovePayload p n))], s)"
    and "handleBookmarkDelete u c rid i ev now s
              = ([Send (ConflictMsg rid i existing EmptyPayload)], s)"
    using assms
    by (simp_all add: handleBookmarkUpdate_def handleBookmarkMove_def handleBookmarkDelete_def
        updateBookmark_def moveBookmark_def deleteBookmark_def)
qed

theorem rest_masks_conflict_websocket_reports_it_witness:
  "getBookmarkById one_bookmark 1 0 = Some (toBookmark (new_row 1 0 example_data 10))
   \<and> router_put_id 1 0 (Some (rename\<lparr>p_expectedVersion := Some 7\<rparr>)) 20 one_bookmark
       = (Response 200 SuccessTrue, one_bookmark)
   \<and> router_patch_id 1 0 (Some (rename\<lparr>p_expectedVersion := Some 7\<rparr>)) 20 one_bookmark
       = (Response 200 SuccessTrue, one_bookmark)
   \<and> router_put_id_move 1 0 None (Some 3) 20 one_bookmark = (Response 200 SuccessTrue, one_bookmark)
   \<and> router_delete_id 1 0 (Some 7) 20 one_bookmark = (Response 200 SuccessTrue, one_bookmark)
   \<and> handleBookmarkUpdate 0 ''c1'' ''r1'' 1 (rename\<lparr>p_expectedVersion := Some 7\<rparr>) 7 20 one_bookmark
       = ([Send (ConflictMsg ''r1'' 1 (toBookmark (new_row 1 0 example_data 10))
                   (UpdatePayload (rename\<lparr>p_expectedVersion := Some 7\<rparr>)))], one_bookmark)
   \<and> handleBookmarkMove 0 ''c1'' ''r1'' 1 None 3 7 20 one_bookmark
       = ([Send (ConflictMsg ''r1'' 1 (toBookmark (new_row 1 0 example_data 10)) (MovePayload None 3))],
          one_bookmark)
   \<and> handleBookmarkDelete 0 ''c1'' ''r1'' 1 7 20 one_bookmark
       = ([Send (ConflictMsg ''r1'' 1 (toBookmark (new_row 1 0 example_data 10)) EmptyPayload)],
          one_bookmark)"
  using rest_masks_conflict_websocket_reports_it
          [OF getBookmarkById_one_bookmark,
           where d = "rename\<lparr>p_expectedVersion := Some 7\<rparr>" and q = "Some 7" and ev = 7
             and now = 20 and p = None and k = "Some 3" and n = 3 and c = "''c1''" and rid = "''r1''"]
    getBookmarkById_one_bookmark
  by simp

text \<open>
  C9. The REST move handler passes the expected version 0, and every stored bookmark has a
  syncVersion of at least 1. So in every reachable state a REST move of an existing
  bookmark takes the conflict branch: it answers \<^verbatim>\<open>{success: true}\<close> and returns the
  database as it was (the bookmark with its parent and position, the ledger and the event
  log). The same holds for a REST PUT or PATCH whose body has no expectedVersion.
\<close>

theorem rest_move_changes_nothing:
  assumes "reachable s" and "getBookmarkById s i u = Some existing"
  shows "1 \<le> syncVersion existing
       \<and> router_put_id_move i u p k now s = (Response 200 SuccessTrue, s)
       \<and> (p_expectedVersion d = None \<longrightarrow>
            router_put_id i u (Some d) now s = (Response 200 SuccessTrue, s)
          \<and> router_patch_id i u (Some d) now s = (Response 200 SuccessTrue, s))"
proof -
  have pos: "1 \<le> syncVersion existing"
    using assms by (auto intro: stored_version_positive reachable_consistent)
  then have ne: "syncVersion existing \<noteq> 0" by simp
  have "router_put_id_move i u p k now s = (Response 200 SuccessTrue, s)"
    using assms(2) ne by (simp add: router_put_id_move_def moveBookmark_def)
  moreover have "router_put_id i u (Some d) now s = (Response 200 SuccessTrue, s)"
    and "router_patch_id i u (Some d) now s = (Response 200 SuccessTrue, s)"
    if "p_expectedVersion d = None"
    using assms(2) ne that by (simp_all add: router_put_id_def router_patch_id_def updateBookmark_def)
  ultimately show ?thesis using pos by simp
qed

theorem rest_move_changes_nothing_witness:
  "reachable one_bookmark
   \<and> getBookmarkById one_bookmark 1 0 = Some (toBookmark (new_row 1 0 example_data 10))
   \<and> router_put_id_move 1 0 None (Some 3) 20 one_bookmark = (Response 200 SuccessTrue, one_bookmark)
   \<and> router_put_id 1 0 (Some rename) 20 one_bookmark = (Response 200 SuccessTrue, one_bookmark)
   \<and> router_patch_id 1 0 (Some rename) 20 one_bookmark = (Response 200 SuccessTrue, one_bookmark)"
  using rest_move_changes_nothing
          [OF reachable_one_bookmark getBookmarkById_one_bookmark,
           where p = None and k = "Some 3" and now = 20 and d = rename]
    reachable_one_bookmark getBookmarkById_one_bookmark
  by (simp add: rename_def)

section \<open>The per-bookmark version and soft-delete\<close>

text \<open>No call of \<^verbatim>\<open>deleteBookmark\<close>, successful or not, changes a stored
  \<^verbatim>\<open>sync_version\<close>.\<close>

lemma deleteBookmark_keeps_versions:
  "map sync_version (bookmarks (snd (deleteBookmark i u ev c now s))) = map sync_version (bookmarks s)"
  by (auto simp: deleteBookmark_def update_where_def incrementSyncVersion_def recordSyncEvent_def
      randomUUID_def Let_def split: option.split)

text \<open>
  C4 says that every successful update, move and soft-delete adds one to the stored
  per-bookmark syncVersion. \<^verbatim>\<open>updateBookmark\<close> and \<^verbatim>\<open>moveBookmark\<close> do; the UPDATE
  statement of \<^verbatim>\<open>deleteBookmark\<close> sets \<^verbatim>\<open>is_deleted\<close>, \<^verbatim>\<open>deleted_at\<close> and
  \<^verbatim>\<open>date_modified\<close> only. Here a bookmark is created (version 1) and then deleted with
  the matching expected version 1: the delete succeeds with ledger value 2, and the stored
  bookmark still has syncVersion 1, where the claim gives 2.
\<close>

theorem delete_leaves_bookmark_version:
  "fst (deleteBookmark 1 0 1 ''api'' 20 one_bookmark) = Inr (Deleted 2)
   \<and> map_option syncVersion (getBookmarkById one_bookmark 1 0) = Some 1
   \<and> map_option syncVersion (getBookmarkById (snd (deleteBookmark 1 0 1 ''api'' 20 one_bookmark)) 1 0) = Some 1
   \<and> map_option isDeleted (getBookmarkById (snd (deleteBookmark 1 0 1 ''api'' 20 one_bookmark)) 1 0) = Some True"
proof -
  have fr: "fresh one_bookmark"
    using reachable_one_bookmark by (simp add: reachable_consistent consistent_fresh)
  have g: "getSyncVersion one_bookmark 0 = 1"
    by (simp add: one_bookmark_eq getSyncVersion_def)
  have f: "find (\<lambda>r. db_id r = 1 \<and> user_id r = 0) (bookmarks one_bookmark) = Some (new_row 1 0 example_data 10)"
    by (simp add: one_bookmark_eq new_row_def)
  show ?thesis
    using getBookmarkById_one_bookmark g f
    by (simp add: deleteBookmark_fresh [OF fr] getBookmarkById_update_where toBookmark_def new_row_def)
qed

section \<open>Deleting what is already gone\<close>

text \<open>
  C6 says that deleting an id that never existed or is already deleted reports success on
  the REST and on the WebSocket path and leaves the ledger alone. On the code:
  a WebSocket \<^verbatim>\<open>bookmark_delete\<close> for an id that never existed (99) is answered with
  an \<^verbatim>\<open>error\<close> message (SERVER_ERROR, Bookmark not found), not with an ack, since only
  the REST handler catches that error; and a second REST DELETE of the soft-deleted
  bookmark 1 with the same expected version 1 succeeds again and moves the ledger from 2
  to 3, since the row is still found and its version was not bumped by the first delete.
\<close>

theorem delete_of_gone_bookmark_evaluated:
  "handleBookmarkDelete 0 ''c1'' ''r1'' 99 0 20 one_bookmark
     = ([Send (ErrorMsg (Some ''r1'') SERVER_ERROR ''Bookmark not found'')], one_bookmark)
   \<and> router_delete_id 99 0 None 20 one_bookmark = (Response 200 SuccessTrue, one_bookmark)
   \<and> getSyncVersion deleted_bookmark 0 = 2
   \<and> fst (router_delete_id 1 0 (Some 1) 30 deleted_bookmark) = Response 200 (DeleteJson 3)
   \<and> getSyncVersion (snd (router_delete_id 1 0 (Some 1) 30 deleted_bookmark)) 0 = 3
   \<and> fst (handleBookmarkDelete 0 ''c1'' ''r2'' 1 1 30 deleted_bookmark) ! 0 = Send (BookmarkAck ''r2'' 1 3)
   \<and> getSyncVersion (snd (handleBookmarkDelete 0 ''c1'' ''r2'' 1 1 30 deleted_bookmark)) 0 = 3"
proof -
  have n: "getBookmarkById one_bookmark 99 0 = None"
    by (simp add: one_bookmark_eq getBookmarkById_def new_row_def)
  have fr: "fresh deleted_bookmark"
    using reachable_deleted_bookmark by (simp add: reachable_consistent consistent_fresh)
  have g: "getSyncVersion deleted_bookmark 0 = 2"
    by (simp add: deleted_bookmark_eq getSyncVersion_def)
  have hl: "has_ledger deleted_bookmark 0"
    by (simp add: deleted_bookmark_eq has_ledger_def)
  have d: "deleteBookmark 1 0 1 c 30 deleted_bookmark =
           (Inr (Deleted 3), commit 0 Delete 1 EmptyPayload c 30
              (update_where 1 0 (\<lambda>r. r\<lparr>is_deleted := 1, deleted_at := Some 30, date_modified := 30\<rparr>)
                 deleted_bookmark))" for c
    using getBookmarkById_deleted_bookmark g
    by (simp add: deleteBookmark_fresh [OF fr] toBookmark_def new_row_def)
  have 1: "handleBookmarkDelete 0 ''c1'' ''r1'' 99 0 20 one_bookmark
     = ([Send (ErrorMsg (Some ''r1'') SERVER_ERROR ''Bookmark not found'')], one_bookmark)"
    using n by (simp add: handleBookmarkDelete_def deleteBookmark_def server_error_def error_message_def)
  have 2: "router_delete_id 99 0 None 20 one_bookmark = (Response 200 SuccessTrue, one_bookmark)"
    using n by (simp add: router_delete_id_def deleteBookmark_def)
  have 3: "fst (router_delete_id 1 0 (Some 1) 30 deleted_bookmark) = Response 200 (DeleteJson 3)"
    and 4: "getSyncVersion (snd (router_delete_id 1 0 (Some 1) 30 deleted_bookmark)) 0 = 3"
    using hl g d [of "''api''"] by (simp_all add: router_delete_id_def getSyncVersion_commit)
  have 5: "fst (handleBookmarkDelete 0 ''c1'' ''r2'' 1 1 30 deleted_bookmark) ! 0 = Send (BookmarkAck ''r2'' 1 3)"
    and 6: "getSyncVersion (snd (handleBookmarkDelete 0 ''c1'' ''r2'' 1 1 30 deleted_bookmark)) 0 = 3"
    using hl g d [of "''c1''"] getSyncVersion_commit [of 0 Delete 1 EmptyPayload "''c1''" 30 _ 0]
    by (simp_all add: handleBookmarkDelete_def broadcast_event_def randomUUID_def Let_def
        getSyncVersion_def)
  show ?thesis using 1 2 g 3 4 5 6 by simp
qed

section \<open>The sync request\<close>

lemma mset_getAllBookmarks:
  "mset (getAllBookmarks s u)
   = mset (map toBookmark (filter (\<lambda>r. user_id r = u \<and> is_deleted r = 0) (bookmarks s)))"
  by (simp add: getAllBookmarks_def)

text \<open>
  C1. An authenticated WebSocket \<^verbatim>\<open>sync_request\<close> is answered with one message and
  changes nothing. With \<open>V\<close> the user's ledger value: if \<open>lastSyncVersion\<close> is 0 or at
  least \<open>V\<close>, the answer is \<^verbatim>\<open>sync_full\<close> with syncVersion \<open>V\<close> and with exactly the
  user's rows that are not deleted (each once); otherwise it is \<^verbatim>\<open>sync_incremental\<close>
  with the events of \<^verbatim>\<open>getSyncEventsSince(userId, lastSyncVersion)\<close> and currentVersion
  \<open>V\<close>.
\<close>

theorem sync_request_full_or_incremental:
  "handleMessage (Some (u, clientId)) (SyncRequest lastSyncVersion) now s =
     ((if lastSyncVersion = 0 \<or> getSyncVersion s u \<le> lastSyncVersion
       then [Send (SyncFull (getAllBookmarks s u) (getSyncVersion s u))]
       else [Send (SyncIncremental (getSyncEventsSince s u lastSyncVersion) (getSyncVersion s u))]),
      s)
   \<and> mset (getAllBookmarks s u)
     = mset (map toBookmark (filter (\<lambda>r. user_id r = u \<and> is_deleted r = 0) (bookmarks s)))"
  by (simp add: handleMessage_def handleSyncRequest_def Let_def mset_getAllBookmarks)


section \<open>The event log of a reachable state\<close>

lemma events_have_ledger:
  "consistent s \<Longrightarrow> e \<in> set (sync_events s) \<Longrightarrow> has_ledger s (ev_user_id e)"
  by (simp add: consistent_def ledger_ok_def)

lemma no_ledger_no_version: "\<not> has_ledger s u \<Longrightarrow> getSyncVersion s u = 0"
  using find_None_iff_ledger [of u "sync_versions s"]
  by (simp add: getSyncVersion_def has_ledger_def)

lemma events_of_reachable:
  assumes "reachable s"
  shows "map ev_sync_version (events_of s u) = [1..getSyncVersion s u]"
proof (cases "has_ledger s u")
  case True
  have "ledger_ok s" using reachable_consistent [OF assms] by (simp add: consistent_def)
  then show ?thesis using True by (simp add: ledger_ok_def)
next
  case False
  have "\<forall>e \<in> set (sync_events s). ev_user_id e \<noteq> u"
    using events_have_ledger [OF reachable_consistent [OF assms]] False by blast
  then have "events_of s u = []"
    by (simp add: events_of_def filter_empty_conv)
  then show ?thesis using no_ledger_no_version [OF False] by simp
qed

lemma filter_filter_since:
  "filter (\<lambda>e. ev_user_id e = u \<and> v < ev_sync_version e) xs
   = filter (\<lambda>e. v < ev_sync_version e) (filter (\<lambda>e. ev_user_id e = u) xs)"
  by (induction xs) auto

lemma sorted_filter_since:
  assumes "reachable s"
  shows "sorted_wrt (<) (map ev_sync_version (filter (\<lambda>e. v < ev_sync_version e) (events_of s u)))"
proof -
  have "sorted_wrt (<) (map ev_sync_version (events_of s u))"
    unfolding events_of_reachable [OF assms] by (rule sorted_wrt_upto)
  then have "sorted_wrt (\<lambda>x y. ev_sync_version x < ev_sync_version y) (events_of s u)"
    by (simp only: sorted_wrt_map)
  then have "sorted_wrt (\<lambda>x y. ev_sync_version x < ev_sync_version y)
               (filter (\<lambda>e. v < ev_sync_version e) (events_of s u))"
    by (rule sorted_wrt_filter)
  then show ?thesis by (simp only: sorted_wrt_map)
qed

lemma since_unsorted:
  assumes "reachable s"
  shows "getSyncEventsSince s u v
         = map toSyncEvent (take 1000 (filter (\<lambda>e. v < ev_sync_version e) (events_of s u)))"
proof -
  let ?xs = "filter (\<lambda>e. v < ev_sync_version e) (events_of s u)"
  have "sorted_wrt (<) (map ev_sync_version ?xs)" by (rule sorted_filter_since [OF assms])
  then have "sorted (map ev_sync_version ?xs)"
    by (rule strict_sorted_imp_sorted)
  then have "sort_key ev_sync_version ?xs = ?xs" by (rule sort_key_id_if_sorted)
  moreover have "filter (\<lambda>e. ev_user_id e = u \<and> v < ev_sync_version e) (sync_events s) = ?xs"
    by (simp only: filter_filter_since events_of_def)
  ultimately show ?thesis
    by (simp only: getSyncEventsSince_def)
qed

lemma se_syncVersion_toSyncEvent [simp]: "se_syncVersion (toSyncEvent e) = ev_sync_version e"
  by (simp add: toSyncEvent_def)

text \<open>
  C8. In every reachable state, for every user and every cursor \<open>v\<close>,
  \<^verbatim>\<open>getSyncEventsSince(userId, v)\<close> returns events of that user in strictly increasing
  syncVersion order, each with a syncVersion greater than \<open>v\<close>, and at most 1000 of them.
\<close>

theorem events_since_increasing_above_cursor_capped:
  assumes "reachable s"
  shows "sorted_wrt (<) (map se_syncVersion (getSyncEventsSince s u v))
       \<and> (\<forall>e \<in> set (getSyncEventsSince s u v). v < se_syncVersion e)
       \<and> length (getSyncEventsSince s u v) \<le> 1000
       \<and> set (getSyncEventsSince s u v) \<subseteq> toSyncEvent ` set (events_of s u)"
proof -
  let ?xs = "filter (\<lambda>e. v < ev_sync_version e) (events_of s u)"
  have eq: "getSyncEventsSince s u v = map toSyncEvent (take 1000 ?xs)"
    by (rule since_unsorted [OF assms])
  have vs: "map se_syncVersion (getSyncEventsSince s u v) = take 1000 (map ev_sync_version ?xs)"
    by (simp add: eq take_map comp_def)
  have "sorted_wrt (<) (map ev_sync_version ?xs)"
    by (rule sorted_filter_since [OF assms])
  then have 1: "sorted_wrt (<) (map se_syncVersion (getSyncEventsSince s u v))"
    unfolding vs by (rule sorted_wrt_take)
  have sub: "set (take 1000 ?xs) \<subseteq> set ?xs" by (rule set_take_subset)
  have 2: "\<forall>e \<in> set (getSyncEventsSince s u v). v < se_syncVersion e"
    using sub by (auto simp: eq)
  have 3: "length (getSyncEventsSince s u v) \<le> 1000"
    by (simp add: eq)
  have 4: "set (getSyncEventsSince s u v) \<subseteq> toSyncEvent ` set (events_of s u)"
    using sub by (auto simp: eq)
  show ?thesis using 1 2 3 4 by blast
qed

theorem events_since_increasing_above_cursor_capped_witness:
  "reachable deleted_bookmark
   \<and> sorted_wrt (<) (map se_syncVersion (getSyncEventsSince deleted_bookmark 0 0))
   \<and> length (getSyncEventsSince deleted_bookmark 0 0) \<le> 1000
   \<and> map se_syncVersion (getSyncEventsSince deleted_bookmark 0 0) = [1, 2]
   \<and> map se_syncVersion (getSyncEventsSince deleted_bookmark 0 1) = [2]"
proof -
  have "map se_syncVersion (getSyncEventsSince deleted_bookmark 0 0) = [1, 2]"
    and "map se_syncVersion (getSyncEventsSince deleted_bookmark 0 1) = [2]"
    by (simp_all add: getSyncEventsSince_def deleted_bookmark_eq)
  then show ?thesis
    using events_since_increasing_above_cursor_capped [OF reachable_deleted_bookmark, of 0 0]
      reachable_deleted_bookmark
    by simp
qed

section \<open>The ledger counts the mutations\<close>

lemma stamped_commit:
  assumes "has_ledger s u" and "getSyncVersion t u = getSyncVersion s u"
    and "sync_events t = sync_events s" and "has_ledger t u = has_ledger s u"
  shows "stamped s u (getSyncVersion s u + 1) (commit u ty b p c now t)"
proof -
  have "getSyncVersion (commit u ty b p c now t) u = getSyncVersion s u + 1"
    using assms by (simp add: getSyncVersion_commit)
  moreover have "sync_events (commit u ty b p c now t) = sync_events s @
       [\<lparr>ev_id = uuid_seed t, ev_user_id = u, ev_type = ty, ev_bookmark_id = b,
         ev_data = p, ev_timestamp = now, ev_client_id = c,
         ev_sync_version = getSyncVersion s u + 1\<rparr>]"
    using assms by (simp add: commit_def)
  ultimately show ?thesis by (simp add: stamped_def)
qed

lemma createBookmark_stamped:
  assumes "reachable s" and "registered s u"
  shows "\<exists>b s'. createBookmark u d c now s = (Inr (Some b, getSyncVersion s u + 1), s')
           \<and> stamped s u (getSyncVersion s u + 1) s'"
proof -
  have co: "consistent s" by (rule reachable_consistent [OF assms(1)])
  have hl: "has_ledger s u" by (rule registered_has_ledger [OF co assms(2)])
  show ?thesis
    using stamped_commit [OF hl, of "insert_row (new_row (uuid_seed s) u d now) s"]
    by (simp add: createBookmark_fresh [OF consistent_fresh [OF co]])
qed

lemma updateBookmark_stamped:
  assumes "reachable s" and "registered s u"
    and "updateBookmark i u d ev c now s = (Inr (Applied b v), s')"
  shows "stamped s u v s'"
proof -
  have co: "consistent s" by (rule reachable_consistent [OF assms(1)])
  have hl: "has_ledger s u" by (rule registered_has_ledger [OF co assms(2)])
  show ?thesis
    using assms(3) stamped_commit [OF hl, of "update_where i u (apply_patch d now) s"]
    by (auto simp: updateBookmark_fresh [OF consistent_fresh [OF co]] split: option.splits if_splits)
qed

lemma moveBookmark_stamped:
  assumes "reachable s" and "registered s u"
    and "moveBookmark i u p k ev c now s = (Inr (Applied b v), s')"
  shows "stamped s u v s'"
proof -
  have co: "consistent s" by (rule reachable_consistent [OF assms(1)])
  have hl: "has_ledger s u" by (rule registered_has_ledger [OF co assms(2)])
  show ?thesis
    using assms(3) stamped_commit [OF hl, of "update_where i u (\<lambda>r. r\<lparr>parent_id := p, sort_order := k,
                               date_modified := now, sync_version := sync_version r + 1\<rparr>) s"]
    by (auto simp: moveBookmark_fresh [OF consistent_fresh [OF co]] split: option.splits if_splits)
qed

lemma deleteBookmark_stamped:
  assumes "reachable s" and "registered s u"
    and "deleteBookmark i u ev c now s = (Inr (Deleted v), s')"
  shows "stamped s u v s'"
proof -
  have co: "consistent s" by (rule reachable_consistent [OF assms(1)])
  have hl: "has_ledger s u" by (rule registered_has_ledger [OF co assms(2)])
  show ?thesis
    using assms(3) stamped_commit [OF hl, of "update_where i u
           (\<lambda>r. r\<lparr>is_deleted := 1, deleted_at := Some now, date_modified := now\<rparr>) s"]
    by (auto simp: deleteBookmark_fresh [OF consistent_fresh [OF co]] split: option.splits if_splits)
qed

subsection \<open>Runs\<close>

lemma snd_perform:
  "snd (perform r s) =
     (case r of
        CreateReq u d c now \<Rightarrow> snd (createBookmark u d c now s)
      | UpdateReq i u d ev c now \<Rightarrow> snd (updateBookmark i u d ev c now s)
      | DeleteReq i u ev c now \<Rightarrow> snd (deleteBookmark i u ev c now s)
      | MoveReq i u p k ev c now \<Rightarrow> snd (moveBookmark i u p k ev c now s))"
  by (cases r) (auto split: prod.splits sum.splits mutation_result.splits delete_result.splits)

lemma reachable_perform:
  "reachable s \<Longrightarrow> registered s (request_user r) \<Longrightarrow> reachable (snd (perform r s))"
  unfolding snd_perform by (cases r) (auto intro: reachable.intros)

lemma perform_ledger:
  assumes "reachable s" and "registered s (request_user r)"
  shows "users (snd (perform r s)) = users s \<and>
         getSyncVersion (snd (perform r s)) u =
           getSyncVersion s u + (if fst (perform r s) \<and> request_user r = u then 1 else 0)"
proof -
  have co: "consistent s" by (rule reachable_consistent [OF assms(1)])
  have fr: "fresh s" by (rule consistent_fresh [OF co])
  have hl: "has_ledger s (request_user r)" by (rule registered_has_ledger [OF co assms(2)])
  show ?thesis
  proof (cases r)
    case (CreateReq u' d c now)
    then show ?thesis using hl
      by (simp add: createBookmark_fresh [OF fr] getSyncVersion_commit)
  next
    case (UpdateReq i u' d ev c now)
    then show ?thesis using hl
      by (auto simp: updateBookmark_fresh [OF fr] getSyncVersion_commit split: option.splits)
  next
    case (DeleteReq i u' ev c now)
    then show ?thesis using hl
      by (auto simp: deleteBookmark_fresh [OF fr] getSyncVersion_commit split: option.splits)
  next
    case (MoveReq i u' p k ev c now)
    then show ?thesis using hl
      by (auto simp: moveBookmark_fresh [OF fr] getSyncVersion_commit split: option.splits)
  qed
qed

lemma mutations_ledger:
  assumes "reachable s" and "\<forall>r \<in> set rs. registered s (request_user r)"
  shows "reachable (snd (mutations u rs s)) \<and>
         getSyncVersion (snd (mutations u rs s)) u = getSyncVersion s u + int (fst (mutations u rs s))"
  using assms
proof (induction rs arbitrary: s)
  case Nil
  then show ?case by simp
next
  case (Cons r rs)
  let ?s1 = "snd (perform r s)"
  have reg: "registered s (request_user r)" using Cons.prems(2) by simp
  have r1: "reachable ?s1" by (rule reachable_perform [OF Cons.prems(1) reg])
  have us: "users ?s1 = users s" using perform_ledger [OF Cons.prems(1) reg] by simp
  have "\<forall>r \<in> set rs. registered ?s1 (request_user r)"
    using Cons.prems(2) by (simp add: registered_def us)
  from Cons.IH [OF r1 this] perform_ledger [OF Cons.prems(1) reg, of u]
  show ?case by (simp add: case_prod_beta Let_def)
qed

lemma last_event_version:
  assumes "reachable s" and "0 < getSyncVersion s u"
  shows "events_of s u \<noteq> [] \<and> ev_sync_version (last (events_of s u)) = getSyncVersion s u"
proof -
  have m: "map ev_sync_version (events_of s u) = [1..getSyncVersion s u]"
    by (rule events_of_reachable [OF assms(1)])
  have u: "[1..getSyncVersion s u] = [1..getSyncVersion s u - 1] @ [getSyncVersion s u]"
    using assms(2) by (simp add: upto_rec2)
  have ne: "events_of s u \<noteq> []" using m u by auto
  then have "ev_sync_version (last (events_of s u)) = last (map ev_sync_version (events_of s u))"
    by (simp add: last_map)
  also have "\<dots> = getSyncVersion s u" unfolding m using u by (metis last_snoc)
  finally show ?thesis using ne by simp
qed

text \<open>
  C3. In a reachable state, for a registered user: a create always succeeds, and every
  successful create, update, soft-delete or move raises the user's ledger by exactly one,
  appends exactly one sync event stamped with the new ledger value, and returns that
  value as its syncVersion. Hence, starting where the ledger is 0 (as registration and
  clear leave it), after any run of requests of registered users the ledger equals the
  number of the user's successful mutations, and that number is the syncVersion of the
  user's most recent sync event.
\<close>

theorem ledger_counts_successful_mutations:
  assumes "reachable s" and "registered s u"
  shows "(\<exists>b s'. createBookmark u d c now s = (Inr (Some b, getSyncVersion s u + 1), s')
                \<and> stamped s u (getSyncVersion s u + 1) s')
       \<and> (\<forall>b v s'. updateBookmark i u d' ev c now s = (Inr (Applied b v), s') \<longrightarrow> stamped s u v s')
       \<and> (\<forall>v s'. deleteBookmark i u ev c now s = (Inr (Deleted v), s') \<longrightarrow> stamped s u v s')
       \<and> (\<forall>b v s'. moveBookmark i u p k ev c now s = (Inr (Applied b v), s') \<longrightarrow> stamped s u v s')
       \<and> ((\<forall>r \<in> set rs. registered s (request_user r)) \<and> getSyncVersion s u = 0 \<longrightarrow>
            getSyncVersion (snd (mutations u rs s)) u = int (fst (mutations u rs s))
          \<and> (0 < fst (mutations u rs s) \<longrightarrow>
               events_of (snd (mutations u rs s)) u \<noteq> []
             \<and> ev_sync_version (last (events_of (snd (mutations u rs s)) u))
                 = int (fst (mutations u rs s))))"
proof (intro conjI allI impI)
  show "\<exists>b s'. createBookmark u d c now s = (Inr (Some b, getSyncVersion s u + 1), s')
                \<and> stamped s u (getSyncVersion s u + 1) s'"
    by (rule createBookmark_stamped [OF assms])
next
  fix b v s' assume "updateBookmark i u d' ev c now s = (Inr (Applied b v), s')"
  then show "stamped s u v s'" by (rule updateBookmark_stamped [OF assms])
next
  fix v s' assume "deleteBookmark i u ev c now s = (Inr (Deleted v), s')"
  then show "stamped s u v s'" by (rule deleteBookmark_stamped [OF assms])
next
  fix b v s' assume "moveBookmark i u p k ev c now s = (Inr (Applied b v), s')"
  then show "stamped s u v s'" by (rule moveBookmark_stamped [OF assms])
next
  assume a: "(\<forall>r \<in> set rs. registered s (request_user r)) \<and> getSyncVersion s u = 0"
  then have reg: "\<forall>r \<in> set rs. registered s (request_user r)" and z: "getSyncVersion s u = 0"
    by simp_all
  note m = mutations_ledger [OF assms(1) reg, of u]
  show g: "getSyncVersion (snd (mutations u rs s)) u = int (fst (mutations u rs s))"
    using m z by simp
  assume "0 < fst (mutations u rs s)"
  then have "0 < getSyncVersion (snd (mutations u rs s)) u" using g by simp
  from last_event_version [OF conjunct1 [OF m] this]
  show "events_of (snd (mutations u rs s)) u \<noteq> []"
    and "ev_sync_version (last (events_of (snd (mutations u rs s)) u)) = int (fst (mutations u rs s))"
    using g by simp_all
qed

lemma run_example:
  "mutations 0 [CreateReq 0 example_data ''api'' 10, UpdateReq 1 0 rename 5 ''api'' 15,
                DeleteReq 1 0 1 ''api'' 20] one_user
   = (2, deleted_bookmark)"
proof -
  have f1: "fresh one_user"
    using reachable_one_user by (simp add: reachable_consistent consistent_fresh)
  have f2: "fresh one_bookmark"
    using reachable_one_bookmark by (simp add: reachable_consistent consistent_fresh)
  have c: "createBookmark 0 example_data ''api'' 10 one_user
           = (Inr (Some (toBookmark (new_row (uuid_seed one_user) 0 example_data 10)),
                   getSyncVersion one_user 0 + 1), one_bookmark)"
    using createBookmark_fresh [OF f1, of 0 example_data "''api''" 10]
    by (simp add: one_bookmark_def)
  have u: "updateBookmark 1 0 rename 5 ''api'' 15 one_bookmark
           = (Inr (Conflict (toBookmark (new_row 1 0 example_data 10))), one_bookmark)"
    using getBookmarkById_one_bookmark by (simp add: updateBookmark_def)
  have d: "deleteBookmark 1 0 1 ''api'' 20 one_bookmark
           = (Inr (Deleted (getSyncVersion one_bookmark 0 + 1)), deleted_bookmark)"
    using deleteBookmark_fresh [OF f2, of 1 0 1 "''api''" 20] getBookmarkById_one_bookmark
    by (simp add: deleted_bookmark_def)
  show ?thesis using c u d by simp
qed

theorem ledger_counts_successful_mutations_witness:
  "reachable one_bookmark \<and> registered one_bookmark 0
   \<and> fst (updateBookmark 1 0 rename 1 ''api'' 20 one_bookmark)
       = Inr (Applied (getBookmarkById (snd (updateBookmark 1 0 rename 1 ''api'' 20 one_bookmark)) 1 0) 2)
   \<and> stamped one_bookmark 0 2 (snd (updateBookmark 1 0 rename 1 ''api'' 20 one_bookmark))
   \<and> reachable one_user \<and> registered one_user 0 \<and> getSyncVersion one_user 0 = 0
   \<and> fst (mutations 0 [CreateReq 0 example_data ''api'' 10, UpdateReq 1 0 rename 5 ''api'' 15,
                        DeleteReq 1 0 1 ''api'' 20] one_user) = 2
   \<and> getSyncVersion (snd (mutations 0 [CreateReq 0 example_data ''api'' 10,
                        UpdateReq 1 0 rename 5 ''api'' 15, DeleteReq 1 0 1 ''api'' 20] one_user)) 0 = 2"
proof -
  have f2: "fresh one_bookmark"
    using reachable_one_bookmark by (simp add: reachable_consistent consistent_fresh)
  have g1: "getSyncVersion one_bookmark 0 = 1"
    by (simp add: one_bookmark_eq getSyncVersion_def)
  have g0: "getSyncVersion one_user 0 = 0"
    by (simp add: one_user_eq getSyncVersion_def)
  have up: "updateBookmark 1 0 rename 1 ''api'' 20 one_bookmark
            = (Inr (Applied (getBookmarkById (snd (updateBookmark 1 0 rename 1 ''api'' 20 one_bookmark)) 1 0) 2),
               snd (updateBookmark 1 0 rename 1 ''api'' 20 one_bookmark))"
    using getBookmarkById_one_bookmark g1
    by (simp add: updateBookmark_fresh [OF f2])
  have st: "stamped one_bookmark 0 2 (snd (updateBookmark 1 0 rename 1 ''api'' 20 one_bookmark))"
    using ledger_counts_successful_mutations
            [OF reachable_one_bookmark registered_one_bookmark,
             where i = 1 and d' = rename and ev = 1 and c = "''api''" and now = 20] up
    by blast
  have reg: "\<forall>r \<in> set [CreateReq 0 example_data ''api'' 10, UpdateReq 1 0 rename 5 ''api'' 15,
                DeleteReq 1 0 1 ''api'' 20]. registered one_user (request_user r)"
    using registered_one_user by simp
  have run: "getSyncVersion (snd (mutations 0 [CreateReq 0 example_data ''api'' 10,
                        UpdateReq 1 0 rename 5 ''api'' 15, DeleteReq 1 0 1 ''api'' 20] one_user)) 0
             = int (fst (mutations 0 [CreateReq 0 example_data ''api'' 10,
                        UpdateReq 1 0 rename 5 ''api'' 15, DeleteReq 1 0 1 ''api'' 20] one_user))"
    using ledger_counts_successful_mutations
            [OF reachable_one_user registered_one_user,
             where rs = "[CreateReq 0 example_data ''api'' 10, UpdateReq 1 0 rename 5 ''api'' 15,
                DeleteReq 1 0 1 ''api'' 20]"] reg g0
    by blast
  have run': "getSyncVersion deleted_bookmark 0 = 2"
    using run unfolding run_example by simp
  have up': "fst (updateBookmark 1 0 rename 1 ''api'' 20 one_bookmark)
       = Inr (Applied (getBookmarkById (snd (updateBookmark 1 0 rename 1 ''api'' 20 one_bookmark)) 1 0) 2)"
    using arg_cong [OF up, of fst] by (simp only: fst_conv)
  show ?thesis
    unfolding run_example fst_conv snd_conv
    using reachable_one_bookmark registered_one_bookmark reachable_one_user registered_one_user
      g0 up' st run'
    by (intro conjI) (rule refl | assumption)+
qed

section \<open>Full or incremental at ledger value 50\<close>

lemma creates_reachable:
  "reachable s \<Longrightarrow> registered s u \<Longrightarrow>
     reachable (creates n u s) \<and> registered (creates n u s) u
     \<and> getSyncVersion (creates n u s) u = getSyncVersion s u + int n"
proof (induction n arbitrary: s)
  case 0
  then show ?case by simp
next
  case (Suc n)
  let ?d = "\<lparr>c_parentId = None, c_title = ''t'', c_url = Some ''https://example.com'',
                c_isFolder = False, c_sortOrder = 0, c_favicon = None\<rparr>"
  let ?s1 = "snd (createBookmark u ?d ''api'' 0 s)"
  have co: "consistent s" by (rule reachable_consistent [OF Suc.prems(1)])
  have hl: "has_ledger s u" by (rule registered_has_ledger [OF co Suc.prems(2)])
  have r1: "reachable ?s1" by (rule reachable.create [OF Suc.prems])
  have g1: "registered ?s1 u" "getSyncVersion ?s1 u = getSyncVersion s u + 1"
    using Suc.prems(2) hl
    by (simp_all add: createBookmark_fresh [OF consistent_fresh [OF co]] getSyncVersion_commit)
  from Suc.IH [OF r1 g1(1)] g1(2) show ?case by simp
qed

lemma fifty_bookmarks_facts:
  "reachable fifty_bookmarks" "registered fifty_bookmarks 0" "getSyncVersion fifty_bookmarks 0 = 50"
  using creates_reachable [OF reachable_one_user registered_one_user, of 50]
  by (simp_all add: fifty_bookmarks_def one_user_eq getSyncVersion_def)

lemma filter_upto_above:
  assumes "0 \<le> v" and "v \<le> n"
  shows "filter (\<lambda>x. v < x) [1..n] = [v + 1..n]"
proof -
  have "[1..n] = [1..v] @ [v + 1..n]"
    using assms upto_split2 [of 1 v n] by (cases "v = 0") auto
  moreover have "filter (\<lambda>x. v < x) [1..v] = []" by (auto simp: filter_empty_conv)
  moreover have "filter (\<lambda>x. v < x) [v + 1..n] = [v + 1..n]" by (auto simp: filter_id_conv)
  ultimately show ?thesis by simp
qed

lemma since_in_range:
  assumes "reachable s" and "0 \<le> v" and "v \<le> getSyncVersion s u" and "getSyncVersion s u \<le> 1000"
  shows "getSyncEventsSince s u v
         = map toSyncEvent (filter (\<lambda>e. v < ev_sync_version e \<and> ev_sync_version e \<le> getSyncVersion s u)
                              (events_of s u))"
    and "map se_syncVersion (getSyncEventsSince s u v) = [v + 1..getSyncVersion s u]"
proof -
  let ?V = "getSyncVersion s u"
  have m: "map ev_sync_version (events_of s u) = [1..?V]"
    by (rule events_of_reachable [OF assms(1)])
  have le: "\<forall>e \<in> set (events_of s u). ev_sync_version e \<le> ?V"
  proof
    fix e assume "e \<in> set (events_of s u)"
    then have "ev_sync_version e \<in> set (map ev_sync_version (events_of s u))" by simp
    then show "ev_sync_version e \<le> ?V" unfolding m by simp
  qed
  have f: "filter (\<lambda>e. v < ev_sync_version e \<and> ev_sync_version e \<le> ?V) (events_of s u)
           = filter (\<lambda>e. v < ev_sync_version e) (events_of s u)"
    using le by (auto intro: filter_cong)
  have "length (events_of s u) = length [1..?V]" using m by (metis length_map)
  then have "length (events_of s u) \<le> 1000" using assms(4) by simp
  then have "length (filter (\<lambda>e. v < ev_sync_version e) (events_of s u)) \<le> 1000"
    using length_filter_le [of "\<lambda>e. v < ev_sync_version e" "events_of s u"] by linarith
  then have t: "take 1000 (filter (\<lambda>e. v < ev_sync_version e) (events_of s u))
                = filter (\<lambda>e. v < ev_sync_version e) (events_of s u)"
    by simp
  show 1: "getSyncEventsSince s u v
         = map toSyncEvent (filter (\<lambda>e. v < ev_sync_version e \<and> ev_sync_version e \<le> ?V) (events_of s u))"
    unfolding since_unsorted [OF assms(1)] t f by (rule refl)
  have "map se_syncVersion (getSyncEventsSince s u v)
        = map ev_sync_version (filter (\<lambda>e. v < ev_sync_version e) (events_of s u))"
    unfolding since_unsorted [OF assms(1)] t by (simp add: comp_def)
  also have "\<dots> = filter (\<lambda>x. v < x) (map ev_sync_version (events_of s u))"
    by (simp add: filter_map comp_def)
  also have "\<dots> = [v + 1..?V]"
    unfolding m by (rule filter_upto_above [OF assms(2,3)])
  finally show "map se_syncVersion (getSyncEventsSince s u v) = [v + 1..?V]" .
qed

text \<open>
  C2 as stated says that, with the ledger at 50, a \<^verbatim>\<open>sync_request\<close> with
  \<open>lastSyncVersion = 50\<close> is answered with \<^verbatim>\<open>sync_incremental\<close>, an empty event list and
  currentVersion 50. The handler tests \<open>lastSyncVersion \<ge> currentVersion\<close> and answers
  \<^verbatim>\<open>sync_full\<close>: here for user 0 after fifty creates.
\<close>

theorem sync_request_at_ledger_value_is_full:
  "reachable fifty_bookmarks
   \<and> getSyncVersion fifty_bookmarks 0 = 50
   \<and> handleMessage (Some (0, ''c1'')) (SyncRequest 50) 0 fifty_bookmarks
       = ([Send (SyncFull (getAllBookmarks fifty_bookmarks 0) 50)], fifty_bookmarks)
   \<and> handleMessage (Some (0, ''c1'')) (SyncRequest 50) 0 fifty_bookmarks
       \<noteq> ([Send (SyncIncremental [] 50)], fifty_bookmarks)"
  using fifty_bookmarks_facts(1,3)
  by (simp add: handleMessage_def handleSyncRequest_def)

text \<open>
  C2, amended. In a reachable state with the user's ledger at 50: a \<^verbatim>\<open>sync_request\<close>
  with \<open>lastSyncVersion = 0\<close> is answered with \<^verbatim>\<open>sync_full\<close>; one with
  \<open>lastSyncVersion = 50\<close> is answered with \<^verbatim>\<open>sync_full\<close> too, carrying the user's
  bookmarks that are not deleted and syncVersion 50; one with \<open>lastSyncVersion = 10\<close> is
  answered with \<^verbatim>\<open>sync_incremental\<close>, currentVersion 50 and exactly the user's events
  whose syncVersion lies in (10, 50], which are the forty events 11, ..., 50 in this order.
\<close>

theorem sync_request_at_ledger_fifty:
  assumes "reachable s" and "getSyncVersion s u = 50"
  shows "handleMessage (Some (u, c)) (SyncRequest 0) now s
           = ([Send (SyncFull (getAllBookmarks s u) 50)], s)
       \<and> handleMessage (Some (u, c)) (SyncRequest 50) now s
           = ([Send (SyncFull (getAllBookmarks s u) 50)], s)
       \<and> handleMessage (Some (u, c)) (SyncRequest 10) now s
           = ([Send (SyncIncremental (getSyncEventsSince s u 10) 50)], s)
       \<and> getSyncEventsSince s u 10
           = map toSyncEvent
               (filter (\<lambda>e. 10 < ev_sync_version e \<and> ev_sync_version e \<le> 50) (events_of s u))
       \<and> map se_syncVersion (getSyncEventsSince s u 10) = [11..50]"
proof -
  have 1: "handleMessage (Some (u, c)) (SyncRequest 0) now s
           = ([Send (SyncFull (getAllBookmarks s u) 50)], s)"
    and 2: "handleMessage (Some (u, c)) (SyncRequest 50) now s
           = ([Send (SyncFull (getAllBookmarks s u) 50)], s)"
    and 3: "handleMessage (Some (u, c)) (SyncRequest 10) now s
           = ([Send (SyncIncremental (getSyncEventsSince s u 10) 50)], s)"
    using assms(2) by (simp_all add: handleMessage_def handleSyncRequest_def)
  have "(0::int) \<le> 10" "10 \<le> getSyncVersion s u" "getSyncVersion s u \<le> 1000"
    using assms(2) by simp_all
  from since_in_range [OF assms(1) this, unfolded assms(2)]
  have 4: "getSyncEventsSince s u 10
           = map toSyncEvent
               (filter (\<lambda>e. 10 < ev_sync_version e \<and> ev_sync_version e \<le> 50) (events_of s u))"
    and 5: "map se_syncVersion (getSyncEventsSince s u 10) = [11..50]"
    by simp_all
  show ?thesis using 1 2 3 4 5 by (intro conjI)
qed

theorem sync_request_at_ledger_fifty_witness:
  "reachable fifty_bookmarks \<and> getSyncVersion fifty_bookmarks 0 = 50
   \<and> handleMessage (Some (0, ''c1'')) (SyncRequest 0) 7 fifty_bookmarks
       = ([Send (SyncFull (getAllBookmarks fifty_bookmarks 0) 50)], fifty_bookmarks)
   \<and> handleMessage (Some (0, ''c1'')) (SyncRequest 50) 7 fifty_bookmarks
       = ([Send (SyncFull (getAllBookmarks fifty_bookmarks 0) 50)], fifty_bookmarks)
   \<and> handleMessage (Some (0, ''c1'')) (SyncRequest 10) 7 fifty_bookmarks
       = ([Send (SyncIncremental (getSyncEventsSince fifty_bookmarks 0 10) 50)], fifty_bookmarks)
   \<and> map se_syncVersion (getSyncEventsSince fifty_bookmarks 0 10) = [11..50]
   \<and> length (getSyncEventsSince fifty_bookmarks 0 10) = 40"
proof -
  note w = sync_request_at_ledger_fifty [OF fifty_bookmarks_facts(1,3), of "''c1''" 7]
  have m: "map se_syncVersion (getSyncEventsSince fifty_bookmarks 0 10) = [11..50]"
    using w by (elim conjE)
  have "length (getSyncEventsSince fifty_bookmarks 0 10)
        = length (map se_syncVersion (getSyncEventsSince fifty_bookmarks 0 10))"
    by (simp only: length_map)
  also have "\<dots> = 40" unfolding m length_upto by simp
  finally have l: "length (getSyncEventsSince fifty_bookmarks 0 10) = 40" .
  show ?thesis using w fifty_bookmarks_facts(1,3) l by (elim conjE, intro conjI)
qed

section \<open>The handlers stay within the reachable states\<close>

lemma snd_rest:
  "snd (router_put_id i u body now s) =
     (case body of None \<Rightarrow> s
      | Some d \<Rightarrow> snd (updateBookmark i u d (case p_expectedVersion d of None \<Rightarrow> 0 | Some v \<Rightarrow> v) ''api'' now s))"
  "snd (router_patch_id i u body now s) =
     (case body of None \<Rightarrow> s
      | Some d \<Rightarrow> snd (updateBookmark i u d (case p_expectedVersion d of None \<Rightarrow> 0 | Some v \<Rightarrow> v) ''api'' now s))"
  "snd (router_put_id_move i u p k now s) =
     snd (moveBookmark i u p (case k of None \<Rightarrow> 0 | Some n \<Rightarrow> n) 0 ''api'' now s)"
  "snd (router_delete_id i u q now s) =
     snd (deleteBookmark i u (case q of None \<Rightarrow> 0 | Some v \<Rightarrow> v) ''api'' now s)"
  by (simp_all add: router_put_id_def router_patch_id_def router_put_id_move_def router_delete_id_def
      Let_def split: option.split prod.split sum.split mutation_result.split delete_result.split)

lemma reachable_rest:
  assumes "reachable s" and "registered s u"
  shows "reachable (snd (router_put_id i u body now s))
       \<and> reachable (snd (router_patch_id i u body now s))
       \<and> reachable (snd (router_put_id_move i u p k now s))
       \<and> reachable (snd (router_delete_id i u q now s))
       \<and> reachable (snd (router_post_clear u s))"
  unfolding snd_rest
  using assms
  by (auto simp: router_post_clear_def intro: reachable.intros split: option.split)

lemma snd_broadcast_event: "snd (broadcast_event u c ty b p v now s) = snd (randomUUID s)"
  by (simp add: broadcast_event_def case_prod_beta)

lemma reachable_websocket:
  assumes "reachable s" and "\<And>u c. ws = Some (u, c) \<Longrightarrow> registered s u"
  shows "reachable (snd (handleMessage ws m now s))"
proof (cases ws)
  case None
  then show ?thesis using assms(1) by (cases m) (simp_all add: handleMessage_def)
next
  case (Some a)
  obtain u' c' where a: "a = (u', c')" by (cases a)
  have reg: "registered s u'" using assms(2) [of u' c'] Some a by simp
  show ?thesis
  proof (cases m)
    case (SyncRequest v)
    then show ?thesis using assms(1) Some a by (simp add: handleMessage_def)
  next
    case SyncClear
    then show ?thesis using Some a reachable.clear [OF assms(1) reg] by (simp add: handleMessage_def)
  next
    case (BookmarkCreateMsg rid d)
    have "reachable (snd (createBookmark u' d c' now s))" by (rule reachable.create [OF assms(1) reg])
    then show ?thesis using BookmarkCreateMsg Some a
      by (auto simp: handleMessage_def handleBookmarkCreate_def snd_broadcast_event case_prod_beta
          intro: reachable.uuid split: sum.split option.split prod.split)
  next
    case (BookmarkUpdateMsg rid i d ev)
    have "reachable (snd (updateBookmark i u' d ev c' now s))" by (rule reachable.update [OF assms(1) reg])
    then show ?thesis using BookmarkUpdateMsg Some a
      by (auto simp: handleMessage_def handleBookmarkUpdate_def snd_broadcast_event case_prod_beta
          intro: reachable.uuid split: sum.split option.split prod.split mutation_result.split)
  next
    case (BookmarkDeleteMsg rid i ev)
    have "reachable (snd (deleteBookmark i u' ev c' now s))" by (rule reachable.delete [OF assms(1) reg])
    then show ?thesis using BookmarkDeleteMsg Some a
      by (auto simp: handleMessage_def handleBookmarkDelete_def snd_broadcast_event case_prod_beta
          intro: reachable.uuid split: sum.split option.split prod.split delete_result.split)
  next
    case (BookmarkMoveMsg rid i p k ev)
    have "reachable (snd (moveBookmark i u' p k ev c' now s))" by (rule reachable.move [OF assms(1) reg])
    then show ?thesis using BookmarkMoveMsg Some a
      by (auto simp: handleMessage_def handleBookmarkMove_def snd_broadcast_event case_prod_beta
          intro: reachable.uuid split: sum.split option.split prod.split mutation_result.split)
  next
    case (Ping t)
    then show ?thesis using assms(1) by (simp add: handleMessage_def)
  qed
qed

section \<open>Soft-deleted bookmarks\<close>

lemma bookmarks_createUser: "bookmarks (snd (createUser mail pw now s)) = bookmarks s"
  by (simp add: createUser_def randomUUID_def Let_def)

lemma has_ledger_createUser:
  "has_ledger s u \<Longrightarrow> has_ledger (snd (createUser mail pw now s)) u"
  by (auto simp: createUser_def randomUUID_def Let_def has_ledger_def)

lemma rows_ok_update_where:
  assumes "rows_ok s" and "\<And>r. db_id (f r) = db_id r" and "\<And>r. user_id (f r) = user_id r"
  shows "rows_ok (update_where i u f s)"
proof -
  have "map db_id (bookmarks (update_where i u f s)) = map db_id (bookmarks s)"
    using assms(2) by (simp add: update_where_def)
  moreover have "\<forall>r \<in> set (bookmarks (update_where i u f s)). has_ledger s (user_id r)"
    using assms(1,3) by (auto simp: rows_ok_def update_where_def)
  ultimately show ?thesis using assms(1) by (simp add: rows_ok_def)
qed

lemma rows_ok_commit [simp]: "rows_ok (commit u ty b p c now s) = rows_ok s"
  by (simp add: rows_ok_def)

lemma reachable_rows_ok: "reachable s \<Longrightarrow> rows_ok s"
proof (induction rule: reachable.induct)
  case start
  show ?case by (simp add: rows_ok_def initDatabase_def)
next
  case (register s mail pw now)
  then show ?case
    by (auto simp: rows_ok_def bookmarks_createUser has_ledger_createUser)
next
  case (uuid s)
  then show ?case by (simp add: rows_ok_def randomUUID_def has_ledger_def)
next
  case (create s u d c now)
  have co: "consistent s" by (rule reachable_consistent [OF create.hyps(1)])
  have hl: "has_ledger s u" by (rule registered_has_ledger [OF co create.hyps(2)])
  have "uuid_seed s \<notin> db_id ` set (bookmarks s)"
    using consistent_fresh [OF co] by (auto simp: fresh_def)
  then have "rows_ok (insert_row (new_row (uuid_seed s) u d now) s)"
    using create.IH hl by (auto simp: rows_ok_def new_row_def)
  then show ?case by (simp add: createBookmark_fresh [OF consistent_fresh [OF co]])
next
  case (update s u i d ev c now)
  have fr: "fresh s" by (rule consistent_fresh [OF reachable_consistent [OF update.hyps(1)]])
  have "rows_ok (update_where i u (apply_patch d now) s)"
    using update.IH by (rule rows_ok_update_where) simp_all
  then show ?case using update.IH
    by (simp add: updateBookmark_fresh [OF fr] split: option.splits)
next
  case (delete s u i ev c now)
  have fr: "fresh s" by (rule consistent_fresh [OF reachable_consistent [OF delete.hyps(1)]])
  have "rows_ok (update_where i u
          (\<lambda>r. r\<lparr>is_deleted := 1, deleted_at := Some now, date_modified := now\<rparr>) s)"
    using delete.IH by (rule rows_ok_update_where) simp_all
  then show ?case using delete.IH
    by (simp add: deleteBookmark_fresh [OF fr] split: option.splits)
next
  case (move s u i p k ev c now)
  have fr: "fresh s" by (rule consistent_fresh [OF reachable_consistent [OF move.hyps(1)]])
  have "rows_ok (update_where i u (\<lambda>r. r\<lparr>parent_id := p, sort_order := k,
                               date_modified := now, sync_version := sync_version r + 1\<rparr>) s)"
    using move.IH by (rule rows_ok_update_where) simp_all
  then show ?case using move.IH
    by (simp add: moveBookmark_fresh [OF fr] split: option.splits)
next
  case (clear s u)
  then show ?case by (auto simp: rows_ok_def distinct_map_filter)
qed

lemma find_by_key:
  assumes "distinct (map db_id xs)" and "r \<in> set xs"
  shows "find (\<lambda>x. db_id x = db_id r \<and> user_id x = user_id r) xs = Some r"
  using assms by (induction xs) (auto simp: image_iff)

lemma lookup_row:
  assumes "reachable s" and "r \<in> set (bookmarks s)"
  shows "find (\<lambda>x. db_id x = db_id r \<and> user_id x = user_id r) (bookmarks s) = Some r"
    and "getBookmarkById s (db_id r) (user_id r) = Some (toBookmark r)"
proof -
  have "distinct (map db_id (bookmarks s))"
    using reachable_rows_ok [OF assms(1)] by (simp add: rows_ok_def)
  then show f: "find (\<lambda>x. db_id x = db_id r \<and> user_id x = user_id r) (bookmarks s) = Some r"
    using assms(2) by (rule find_by_key)
  then show "getBookmarkById s (db_id r) (user_id r) = Some (toBookmark r)"
    by (simp add: getBookmarkById_def)
qed

lemma not_listed:
  assumes "reachable s" and "r \<in> set (bookmarks s)" and "is_deleted r \<noteq> 0"
  shows "db_id r \<notin> set (map bm_id (getAllBookmarks s u))"
proof
  assume "db_id r \<in> set (map bm_id (getAllBookmarks s u))"
  then obtain r' where r': "r' \<in> set (bookmarks s)" "is_deleted r' = 0" "db_id r' = db_id r"
    by (auto simp: getAllBookmarks_def toBookmark_def)
  have "distinct (map db_id (bookmarks s))"
    using reachable_rows_ok [OF assms(1)] by (simp add: rows_ok_def)
  then have "inj_on db_id (set (bookmarks s))" by (simp add: distinct_map)
  then have "r' = r" using r'(1,3) assms(2) by (auto dest: inj_onD)
  then show False using r'(2) assms(3) by simp
qed

lemma row_has_ledger: "reachable s \<Longrightarrow> r \<in> set (bookmarks s) \<Longrightarrow> has_ledger s (user_id r)"
  using reachable_rows_ok [of s] by (simp add: rows_ok_def)

lemma write_on_row:
  assumes "reachable s" and "r \<in> set (bookmarks s)"
    and "\<And>x. db_id (f x) = db_id x" and "\<And>x. user_id (f x) = user_id x"
  shows "getBookmarkById (commit (user_id r) ty b p c now (update_where (db_id r) (user_id r) f s))
           (db_id r) (user_id r) = Some (toBookmark (f r))"
    and "stamped s (user_id r) (getSyncVersion s (user_id r) + 1)
           (commit (user_id r) ty b p c now (update_where (db_id r) (user_id r) f s))"
proof -
  show "getBookmarkById (commit (user_id r) ty b p c now (update_where (db_id r) (user_id r) f s))
           (db_id r) (user_id r) = Some (toBookmark (f r))"
    using lookup_row(1) [OF assms(1,2)]
    by (simp add: getBookmarkById_update_where [of f, OF assms(3,4)])
  show "stamped s (user_id r) (getSyncVersion s (user_id r) + 1)
           (commit (user_id r) ty b p c now (update_where (db_id r) (user_id r) f s))"
    by (rule stamped_commit [OF row_has_ledger [OF assms(1,2)]]) simp_all
qed

text \<open>
  C10. The lookup of one bookmark does not exclude soft-deleted rows. In every reachable
  state, for every row \<open>r\<close> of the bookmarks table with \<^verbatim>\<open>is_deleted = 1\<close>:
  \<^verbatim>\<open>getBookmarkById\<close> with the row's id and owner returns the bookmark of \<open>r\<close>, with
  \<^verbatim>\<open>isDeleted = true\<close>, and \<^verbatim>\<open>GET /api/bookmarks/:id\<close> answers 200 with it, not 404.
  Update, move and delete with the row's version as expectedVersion succeed on it: each
  returns the next ledger value, leaves the ledger there with one new event, and writes
  the row (patched, moved, or marked deleted once more), which stays deleted.
  \<^verbatim>\<open>getAllBookmarks\<close> lists no bookmark with the row's id.
\<close>

theorem soft_deleted_bookmark_is_found:
  assumes "reachable s" and "r \<in> set (bookmarks s)" and "is_deleted r = 1"
  shows "getBookmarkById s (db_id r) (user_id r) = Some (toBookmark r)
       \<and> isDeleted (toBookmark r)
       \<and> router_get_id (db_id r) (user_id r) s = Response 200 (BookmarkJson (toBookmark r))
       \<and> fst (updateBookmark (db_id r) (user_id r) d (sync_version r) c now s)
           = Inr (Applied (Some (toBookmark (apply_patch d now r))) (getSyncVersion s (user_id r) + 1))
       \<and> getBookmarkById (snd (updateBookmark (db_id r) (user_id r) d (sync_version r) c now s))
             (db_id r) (user_id r)
           = Some (toBookmark (apply_patch d now r))
       \<and> isDeleted (toBookmark (apply_patch d now r))
       \<and> stamped s (user_id r) (getSyncVersion s (user_id r) + 1)
             (snd (updateBookmark (db_id r) (user_id r) d (sync_version r) c now s))
       \<and> fst (moveBookmark (db_id r) (user_id r) p k (sync_version r) c now s)
           = Inr (Applied (Some (toBookmark (r\<lparr>parent_id := p, sort_order := k,
                     date_modified := now, sync_version := sync_version r + 1\<rparr>)))
                  (getSyncVersion s (user_id r) + 1))
       \<and> getBookmarkById (snd (moveBookmark (db_id r) (user_id r) p k (sync_version r) c now s))
             (db_id r) (user_id r)
           = Some (toBookmark (r\<lparr>parent_id := p, sort_order := k,
                     date_modified := now, sync_version := sync_version r + 1\<rparr>))
       \<and> stamped s (user_id r) (getSyncVersion s (user_id r) + 1)
             (snd (moveBookmark (db_id r) (user_id r) p k (sync_version r) c now s))
       \<and> fst (deleteBookmark (db_id r) (user_id r) (sync_version r) c now s)
           = Inr (Deleted (getSyncVersion s (user_id r) + 1))
       \<and> getBookmarkById (snd (deleteBookmark (db_id r) (user_id r) (sync_version r) c now s))
             (db_id r) (user_id r)
           = Some (toBookmark (r\<lparr>is_deleted := 1, deleted_at := Some now, date_modified := now\<rparr>))
       \<and> stamped s (user_id r) (getSyncVersion s (user_id r) + 1)
             (snd (deleteBookmark (db_id r) (user_id r) (sync_version r) c now s))
       \<and> db_id r \<notin> set (map bm_id (getAllBookmarks s (user_id r)))"
proof -
  let ?i = "db_id r" and ?u = "user_id r"
  let ?mv = "\<lambda>x. x\<lparr>parent_id := p, sort_order := k,
                   date_modified := now, sync_version := sync_version x + 1\<rparr>"
  let ?dl = "\<lambda>x. x\<lparr>is_deleted := 1, deleted_at := Some now, date_modified := now\<rparr>"
  have fr: "fresh s" using assms(1) by (simp add: reachable_consistent consistent_fresh)
  have g: "getBookmarkById s ?i ?u = Some (toBookmark r)"
    by (rule lookup_row(2) [OF assms(1,2)])
  have v: "syncVersion (toBookmark r) = sync_version r" by (simp add: toBookmark_def)
  have d1: "isDeleted (toBookmark r)" using assms(3) by (simp add: toBookmark_def)
  have d2: "isDeleted (toBookmark (apply_patch d now r))"
    using assms(3) by (simp add: toBookmark_def apply_patch_def Let_def split: option.splits)
  have get: "router_get_id ?i ?u s = Response 200 (BookmarkJson (toBookmark r))"
    using g by (simp add: router_get_id_def)
  have fu: "find (\<lambda>x. db_id x = ?i \<and> user_id x = ?u) (bookmarks s) = Some r"
    by (rule lookup_row(1) [OF assms(1,2)])
  have up: "updateBookmark ?i ?u d (sync_version r) c now s
            = (Inr (Applied (Some (toBookmark (apply_patch d now r))) (getSyncVersion s ?u + 1)),
               commit ?u Update ?i (UpdatePayload d) c now (update_where ?i ?u (apply_patch d now) s))"
    using g v fu by (simp add: updateBookmark_fresh [OF fr] getBookmarkById_update_where)
  have mv: "moveBookmark ?i ?u p k (sync_version r) c now s
            = (Inr (Applied (Some (toBookmark (?mv r))) (getSyncVersion s ?u + 1)),
               commit ?u Move ?i (MovePayload p k) c now (update_where ?i ?u ?mv s))"
    using g v fu by (simp add: moveBookmark_fresh [OF fr] getBookmarkById_update_where)
  have dl: "deleteBookmark ?i ?u (sync_version r) c now s
            = (Inr (Deleted (getSyncVersion s ?u + 1)),
               commit ?u Delete ?i EmptyPayload c now (update_where ?i ?u ?dl s))"
    using g v by (simp add: deleteBookmark_fresh [OF fr])
  note wu = write_on_row [OF assms(1,2), of "apply_patch d now" Update ?i "UpdatePayload d" c now]
  note wm = write_on_row [OF assms(1,2), of ?mv Move ?i "MovePayload p k" c now]
  note wd = write_on_row [OF assms(1,2), of ?dl Delete ?i EmptyPayload c now]
  have nl: "?i \<notin> set (map bm_id (getAllBookmarks s ?u))"
    using assms(3) by (intro not_listed [OF assms(1,2)]) simp
  show ?thesis
    unfolding up mv dl fst_conv snd_conv
    using g d1 get d2 wu wm wd nl by simp
qed

lemma deleted_row_in_table:
  "(new_row 1 0 example_data 10)\<lparr>is_deleted := 1, deleted_at := Some 20, date_modified := 20\<rparr>
     \<in> set (bookmarks deleted_bookmark)"
  by (simp add: deleted_bookmark_eq)

theorem soft_deleted_bookmark_is_found_witness:
  "reachable deleted_bookmark
   \<and> (new_row 1 0 example_data 10)\<lparr>is_deleted := 1, deleted_at := Some 20, date_modified := 20\<rparr>
        \<in> set (bookmarks deleted_bookmark)
   \<and> getBookmarkById deleted_bookmark 1 0 =
       Some (toBookmark ((new_row 1 0 example_data 10)\<lparr>is_deleted := 1, deleted_at := Some 20, date_modified := 20\<rparr>))
   \<and> router_get_id 1 0 deleted_bookmark =
       Response 200 (BookmarkJson (toBookmark ((new_row 1 0 example_data 10)\<lparr>is_deleted := 1, deleted_at := Some 20, date_modified := 20\<rparr>)))
   \<and> fst (deleteBookmark 1 0 1 ''api'' 30 deleted_bookmark) = Inr (Deleted 3)
   \<and> map_option title (getBookmarkById (snd (updateBookmark 1 0 rename 1 ''api'' 30 deleted_bookmark)) 1 0)
       = Some ''Manuals''
   \<and> map_option isDeleted (getBookmarkById (snd (updateBookmark 1 0 rename 1 ''api'' 30 deleted_bookmark)) 1 0)
       = Some True
   \<and> getSyncVersion (snd (moveBookmark 1 0 None 4 1 ''api'' 30 deleted_bookmark)) 0 = 3
   \<and> 1 \<notin> set (map bm_id (getAllBookmarks deleted_bookmark 0))"
proof -
  let ?r = "(new_row 1 0 example_data 10)\<lparr>is_deleted := 1, deleted_at := Some 20, date_modified := 20\<rparr>"
  have k: "db_id ?r = 1" "user_id ?r = 0" "sync_version ?r = 1" "is_deleted ?r = 1"
    by (simp_all add: new_row_def)
  have g: "getSyncVersion deleted_bookmark 0 = 2"
    by (simp add: deleted_bookmark_eq getSyncVersion_def)
  note w = soft_deleted_bookmark_is_found
             [OF reachable_deleted_bookmark deleted_row_in_table k(4),
              where d = rename and c = "''api''" and now = 30 and p = None and k = 4,
              unfolded k g]
  have t: "title (toBookmark (apply_patch rename 30 ?r)) = ''Manuals''"
    by (simp add: toBookmark_def apply_patch_def rename_def Let_def)
  have "getSyncVersion (snd (moveBookmark 1 0 None 4 1 ''api'' 30 deleted_bookmark)) 0 = 3"
    using w by (simp add: stamped_def)
  moreover have "map_option title (getBookmarkById (snd (updateBookmark 1 0 rename 1 ''api'' 30 deleted_bookmark)) 1 0)
       = Some ''Manuals''"
    and "map_option isDeleted (getBookmarkById (snd (updateBookmark 1 0 rename 1 ''api'' 30 deleted_bookmark)) 1 0)
       = Some True"
    using w t by simp_all
  ultimately show ?thesis
    using w reachable_deleted_bookmark deleted_row_in_table by simp
qed

end
